theory Spec2Isabelle
  imports Main
begin

section \<open>The observed world\<close>

text \<open>
  The download watcher talks to its surroundings through three calls only: \<^verbatim>\<open>Date.now()\<close>,
  \<^verbatim>\<open>fs.readdirSync(dir)\<close> and \<^verbatim>\<open>fs.statSync(path).size\<close>. Other processes (the browser
  writing the download) change the directory while the watcher runs, so two calls made one
  after the other may see different directories. A \<open>world\<close> is what one such call can
  observe; an environment gives the world at every instant, and the \<open>n\<close>-th call of a run
  observes instant \<open>n\<close>. A call that throws is the answer \<open>None\<close>.
\<close>

record world =
  Date_now :: int
  readdirSync :: "string \<Rightarrow> string list option"
  statSync_size :: "string \<Rightarrow> nat option"

type_synonym env = "nat \<Rightarrow> world"

text \<open>
  \<^verbatim>\<open>path.join(dir, name)\<close> for a directory that comes out of \<^verbatim>\<open>path.resolve\<close> and an
  entry name that comes out of a directory listing (no separator in it): the two joined by
  one separator.
\<close>

definition path_join :: "string \<Rightarrow> string \<Rightarrow> string" where
  "path_join d f = d @ ''/'' @ f"

section \<open>Effects and outcomes\<close>

text \<open>
  Every call the scripts make on the outside world, with the answer it got. \<open>MkdirSync\<close> is
  the one call of the scripts that changes the file system.
\<close>

datatype collaborator =
    Listen | Launch | NewPage | CreateCDPSession | SetDownloadBehavior | Goto
  | EvaluateOptions | EvaluateGenerate | EvaluateStats | EvaluateExportToJson | BrowserClose

datatype effect =
    DateNow int
  | ReaddirSync string "string list option"
  | StatSync string "nat option"
  | SetTimeout nat
  | ConsoleLog string
  | ConsoleError string
  | ExistsSync string bool
  | MkdirSync string
  | Call collaborator
  | ServerClose
  | ProcessExit nat

fun mutates_fs :: "effect \<Rightarrow> bool" where
  "mutates_fs (MkdirSync p) = True"
| "mutates_fs e = False"

text \<open>
  An exception thrown by \<^verbatim>\<open>readdirSync\<close> or \<^verbatim>\<open>statSync\<close>, with the path of the call.
  Thrown while the promise executor still runs, it rejects the promise (\<open>Rejected\<close>); thrown
  inside a timer callback, nothing catches it and the promise is never settled
  (\<open>Uncaught\<close>).
\<close>

datatype io_error = IOError string

datatype failure = Rejected io_error | Uncaught io_error

type_synonym outcome = "failure + string option"

fun throw :: "bool \<Rightarrow> io_error \<Rightarrow> failure" where
  "throw False e = Rejected e"
| "throw True e = Uncaught e"

section \<open>waitForDownload\<close>

text \<open>The variables \<^verbatim>\<open>checkDownload\<close> closes over.\<close>

record closure =
  downloadPath :: string
  timeout :: int
  startTime :: int
  initialFiles :: "string list"

text \<open>
  What one run of the body of \<^verbatim>\<open>checkDownload\<close> ends with: the watch is over (the promise
  is resolved, or an exception is thrown), or \<^verbatim>\<open>checkDownload\<close> is entered again, from a
  timer callback.
\<close>

datatype next_step = Settle outcome | Again

definition newFiles_of :: "string list \<Rightarrow> string list \<Rightarrow> string list" where
  "newFiles_of initial currentFiles = filter (\<lambda>file. file \<notin> set initial) currentFiles"

text \<open>
  The body of \<^verbatim>\<open>checkDownload\<close>, entered at instant \<open>i\<close>; \<open>inTimer\<close> tells whether it runs
  from a timer callback (every entry but the first). It returns how it ends, the instant
  after its last call, and the effects in order.
\<close>

definition checkDownload_body ::
  "env \<Rightarrow> closure \<Rightarrow> bool \<Rightarrow> nat \<Rightarrow> next_step \<times> nat \<times> effect list" where
  "checkDownload_body env c inTimer i =
     (case readdirSync (env i) (downloadPath c) of
        None \<Rightarrow>
          (Settle (Inl (throw inTimer (IOError (downloadPath c)))), i + 1,
           [ReaddirSync (downloadPath c) None])
      | Some currentFiles \<Rightarrow>
          let newFiles = newFiles_of (initialFiles c) currentFiles;
              listed = ReaddirSync (downloadPath c) (Some currentFiles)
          in
          if length newFiles > 0 then
            let filePath = path_join (downloadPath c) (hd newFiles) in
            (case statSync_size (env (i + 1)) filePath of
               None \<Rightarrow>
                 (Settle (Inl (throw inTimer (IOError filePath))), i + 2,
                  [listed, StatSync filePath None])
             | Some fileSizeBefore \<Rightarrow>
                 (case statSync_size (env (i + 2)) filePath of
                    None \<Rightarrow>
                      (Settle (Inl (Uncaught (IOError filePath))), i + 3,
                       [listed, StatSync filePath (Some fileSizeBefore), SetTimeout 100,
                        StatSync filePath None])
                  | Some fileSizeAfter \<Rightarrow>
                      if fileSizeBefore = fileSizeAfter then
                        (Settle (Inr (Some filePath)), i + 3,
                         [listed, StatSync filePath (Some fileSizeBefore), SetTimeout 100,
                          StatSync filePath (Some fileSizeAfter),
                          ConsoleLog (''Download completed: '' @ hd newFiles)])
                      else
                        (Again, i + 3,
                         [listed, StatSync filePath (Some fileSizeBefore), SetTimeout 100,
                          StatSync filePath (Some fileSizeAfter)])))
          else if Date_now (env (i + 1)) - startTime c < timeout c then
            (Again, i + 2, [listed, DateNow (Date_now (env (i + 1))), SetTimeout 100])
          else
            (Settle (Inr None), i + 2,
             [listed, DateNow (Date_now (env (i + 1))), ConsoleLog ''Download timed out'']))"

text \<open>
  \<^verbatim>\<open>checkDownload\<close> itself: the body, entered again as long as it asks for it. It may go on
  for ever, which is the value \<open>None\<close>.
\<close>

partial_function (option) checkDownload ::
  "env \<Rightarrow> closure \<Rightarrow> bool \<Rightarrow> nat \<Rightarrow> effect list \<Rightarrow> (outcome \<times> nat \<times> effect list) option" where
  "checkDownload env c inTimer i tr =
     (case checkDownload_body env c inTimer i of
        (Settle r, n, es) \<Rightarrow> Some (r, n, tr @ es)
      | (Again, n, es) \<Rightarrow> checkDownload env c True n (tr @ es))"

declare checkDownload.simps [code]

text \<open>
  \<^verbatim>\<open>waitForDownload(timeout)\<close> on the directory \<open>dir\<close>: the start time, the baseline listing,
  then the first \<^verbatim>\<open>checkDownload()\<close>, all inside the promise executor.
\<close>

definition waitForDownload ::
  "env \<Rightarrow> string \<Rightarrow> int \<Rightarrow> (outcome \<times> nat \<times> effect list) option" where
  "waitForDownload env dir tmo =
     (let start = Date_now (env 0) in
      case readdirSync (env 1) dir of
        None \<Rightarrow> Some (Inl (Rejected (IOError dir)), 2, [DateNow start, ReaddirSync dir None])
      | Some initial \<Rightarrow>
          checkDownload env
            \<lparr>downloadPath = dir, timeout = tmo, startTime = start, initialFiles = initial\<rparr>
            False 2 [DateNow start, ReaddirSync dir (Some initial)])"

section \<open>The orchestration\<close>

text \<open>
  The awaited calls on the browser and the page either return or throw; \<open>throws\<close> says
  which. What they return is opaque and only printed, so a log line keeps its fixed text.
  The awaited calls between the start of the server and the download, each with the log
  lines that follow it: the script of \<^verbatim>\<open>src/unnamed/part_000\<close> and the last script of
  \<^verbatim>\<open>src/entry.cjs\<close>.
\<close>

type_synonym script = "(collaborator \<times> effect list) list"

definition part_000_script :: script where
  "part_000_script =
     [(Launch, []), (NewPage, []), (CreateCDPSession, []), (SetDownloadBehavior, []),
      (Goto, []),
      (EvaluateGenerate, [ConsoleLog ''generate returned:'']),
      (EvaluateStats, [ConsoleLog ''Map statistics:'', ConsoleLog ''Starting JSON export...'']),
      (EvaluateExportToJson, [ConsoleLog ''exportToJson returned:''])]"

definition entry_script :: script where
  "entry_script =
     [(Launch, []), (NewPage, []), (CreateCDPSession, []), (SetDownloadBehavior, []),
      (Goto, []),
      (EvaluateOptions, [ConsoleLog ''Starting map generation with seed: AgentMatrix2025'']),
      (EvaluateGenerate, [ConsoleLog ''Map generation complete'']),
      (EvaluateStats,
       [ConsoleLog (CHR 0x0A # ''=== MAP STATISTICS ===''),
        ConsoleLog ''Seed: '', ConsoleLog ''Canvas size: '', ConsoleLog ''Heightmap: '',
        ConsoleLog ''Template: '', ConsoleLog ''Points: '', ConsoleLog ''Cells: '',
        ConsoleLog ''Map size: '', ConsoleLog ''States: '', ConsoleLog ''Provinces: '',
        ConsoleLog ''Burgs: '', ConsoleLog ''Religions: '', ConsoleLog ''Culture set: '',
        ConsoleLog ''Cultures: '',
        ConsoleLog (''====================='' @ [CHR 0x0A]),
        ConsoleLog ''Starting JSON export...'']),
      (EvaluateExportToJson, [ConsoleLog ''exportToJson returned:''])]"

text \<open>Run the awaited calls in order; the first one that throws ends the run (\<open>Inl\<close>).\<close>

fun run_awaits :: "(collaborator \<Rightarrow> bool) \<Rightarrow> script \<Rightarrow> effect list \<Rightarrow> effect list + effect list" where
  "run_awaits throws [] tr = Inr tr"
| "run_awaits throws ((s, logs) # rest) tr =
     (if throws s then Inl (tr @ [Call s]) else run_awaits throws rest (tr @ [Call s] @ logs))"

text \<open>
  How the process ends: the asynchronous function ran to its end and nothing called
  \<^verbatim>\<open>process.exit\<close> (\<open>Completed\<close>), the \<^verbatim>\<open>.catch\<close> handler called \<^verbatim>\<open>process.exit(code)\<close>
  (\<open>Exited\<close>), or an exception that nothing catches ended the process (\<open>Crashed\<close>): one
  thrown in a timer callback, or the \<^verbatim>\<open>'error'\<close> event of the server. Node's exit code is 0
  in the first case and 1 in the last.
\<close>

datatype ending = Completed | Exited nat | Crashed

fun exit_code :: "ending \<Rightarrow> nat" where
  "exit_code Completed = 0"
| "exit_code (Exited n) = n"
| "exit_code Crashed = 1"

text \<open>The \<^verbatim>\<open>.catch\<close> handler of the main function.\<close>

definition catch_handler :: "effect list \<Rightarrow> ending \<times> effect list" where
  "catch_handler tr = (Exited 1, tr @ [ConsoleError ''Error occurred:'', ProcessExit 1])"

text \<open>\<^verbatim>\<open>if (downloadedFile)\<close>: \<^verbatim>\<open>null\<close> and the empty string are falsy.\<close>

fun truthy :: "string option \<Rightarrow> bool" where
  "truthy None = False"
| "truthy (Some p) = (p \<noteq> [])"

text \<open>
  The main function. \<open>dir_exists\<close> is the answer of \<^verbatim>\<open>fs.existsSync(downloadPath)\<close>,
  \<open>mkdir_throws\<close> tells whether \<^verbatim>\<open>fs.mkdirSync\<close> throws.

  \<open>throws Listen\<close> tells whether the server fails to bind its port. The callback given to
  \<^verbatim>\<open>server.listen\<close> is called when the server listens, and with no argument: its
  \<^verbatim>\<open>reject(err)\<close> is never reached. A failed bind is an \<^verbatim>\<open>'error'\<close> event of the server, for
  which the scripts register no listener, so it ends the process as an uncaught exception;
  the promise the main function awaits is never settled and the \<^verbatim>\<open>.catch\<close> handler does
  not run.

  \<^verbatim>\<open>waitForDownload()\<close> is called with its default timeout. A watcher that never settles
  leaves the main function waiting (\<open>None\<close>).
\<close>

definition main ::
  "(collaborator \<Rightarrow> bool) \<Rightarrow> bool \<Rightarrow> bool \<Rightarrow> script \<Rightarrow> env \<Rightarrow> string \<Rightarrow>
   (ending \<times> effect list) option" where
  "main throws dir_exists mkdir_throws script env dlPath =
     (let tr0 = [ExistsSync dlPath dir_exists] in
      if \<not> dir_exists \<and> mkdir_throws then Some (catch_handler (tr0 @ [MkdirSync dlPath]))
      else
        let tr1 = (if dir_exists then tr0 else tr0 @ [MkdirSync dlPath]) in
        if throws Listen then Some (Crashed, tr1 @ [Call Listen])
        else
        case run_awaits throws script
               (tr1 @ [Call Listen, ConsoleLog ''Server started: http://localhost:3000'']) of
          Inl tr \<Rightarrow> Some (catch_handler tr)
        | Inr tr \<Rightarrow>
            (case waitForDownload env dlPath 30000 of
               None \<Rightarrow> None
             | Some (Inl (Rejected e), n, wtr) \<Rightarrow> Some (catch_handler (tr @ wtr))
             | Some (Inl (Uncaught e), n, wtr) \<Rightarrow> Some (Crashed, tr @ wtr)
             | Some (Inr downloadedFile, n, wtr) \<Rightarrow>
                 if throws BrowserClose then Some (catch_handler (tr @ wtr @ [Call BrowserClose]))
                 else
                   Some (Completed,
                     tr @ wtr @
                     [Call BrowserClose, ServerClose,
                      (if truthy downloadedFile
                       then ConsoleLog (''JSON file successfully downloaded to: '' @ the downloadedFile)
                       else ConsoleError (''Failed to download JSON file to: '' @ dlPath)),
                      ConsoleLog ''Server closed.''])))"

section \<open>Vocabulary of the properties\<close>

text \<open>The path \<^verbatim>\<open>checkDownload\<close> builds for the first new entry of a listing.\<close>

abbreviation filePath_of :: "closure \<Rightarrow> string list \<Rightarrow> string" where
  "filePath_of c cur \<equiv> path_join (downloadPath c) (hd (newFiles_of (initialFiles c) cur))"

text \<open>A call on the file system that threw.\<close>

fun failed :: "effect \<Rightarrow> bool" where
  "failed (ReaddirSync d None) = True"
| "failed (StatSync p None) = True"
| "failed e = False"

text \<open>
  The effects a watcher of the directory \<open>dir\<close> may have: reading the clock, listing
  \<open>dir\<close>, reading the size of a file inside \<open>dir\<close>, arming a timer, printing a line.
\<close>

fun reads_only :: "string \<Rightarrow> effect \<Rightarrow> bool" where
  "reads_only dir (DateNow t) = True"
| "reads_only dir (ReaddirSync d r) = (d = dir)"
| "reads_only dir (StatSync p r) = (take (Suc (length dir)) p = dir @ ''/'')"
| "reads_only dir (SetTimeout ms) = True"
| "reads_only dir (ConsoleLog s) = True"
| "reads_only dir e = False"

section \<open>Concrete runs\<close>

text \<open>
  The environments the properties are tried on. All are about the directory
  \<open>downloads\<close>; the clock of each is a function of the instant that advances by 100 ms
  with every timer of the first watch run in it.
\<close>

definition downloads :: string where
  "downloads = ''/app/downloads''"

text \<open>
  Nothing happens: the directory holds \<^verbatim>\<open>old.json\<close> throughout. A watch makes two calls
  per timer period.
\<close>

definition idle_env :: env where
  "idle_env i =
     \<lparr>Date_now = 100 * int ((i - 2) div 2),
      readdirSync = (\<lambda>d. if d = downloads then Some [''old.json''] else None),
      statSync_size = (\<lambda>p. if p = path_join downloads ''old.json'' then Some 42 else None)\<rparr>"

text \<open>
  The scenario of the specification: the directory starts empty, \<^verbatim>\<open>out.json\<close> is written
  in one shot (500 bytes) between the second and the third poll.
\<close>

definition oneshot_env :: env where
  "oneshot_env i =
     \<lparr>Date_now = 100 * int ((i - 2) div 2),
      readdirSync = (\<lambda>d. if d = downloads then Some (if i < 6 then [] else [''out.json'']) else None),
      statSync_size =
        (\<lambda>p. if p = path_join downloads ''out.json'' \<and> 6 \<le> i then Some 500 else None)\<rparr>"

definition oneshot_trace :: "effect list" where
  "oneshot_trace =
     [DateNow 0, ReaddirSync ''/app/downloads'' (Some []),
      ReaddirSync ''/app/downloads'' (Some []), DateNow 0, SetTimeout 100,
      ReaddirSync ''/app/downloads'' (Some []), DateNow 100, SetTimeout 100,
      ReaddirSync ''/app/downloads'' (Some [''out.json'']),
      StatSync ''/app/downloads/out.json'' (Some 500), SetTimeout 100,
      StatSync ''/app/downloads/out.json'' (Some 500),
      ConsoleLog ''Download completed: out.json'']"

text \<open>
  A download next to an older file: \<^verbatim>\<open>old.json\<close> is there from the start and is rewritten
  all the time (its size changes at every instant), \<^verbatim>\<open>out.json\<close> is written in one shot and
  listed after it.
\<close>

definition overwrite_env :: env where
  "overwrite_env i =
     \<lparr>Date_now = 100 * int ((i - 2) div 2),
      readdirSync = (\<lambda>d. if d = downloads
                         then Some (if i < 6 then [''old.json''] else [''old.json'', ''out.json''])
                         else None),
      statSync_size =
        (\<lambda>p. if p = path_join downloads ''old.json'' then Some (10 * i)
             else if p = path_join downloads ''out.json'' \<and> 6 \<le> i then Some 500 else None)\<rparr>"

definition overwrite_trace :: "effect list" where
  "overwrite_trace =
     [DateNow 0, ReaddirSync ''/app/downloads'' (Some [''old.json'']),
      ReaddirSync ''/app/downloads'' (Some [''old.json'']), DateNow 0, SetTimeout 100,
      ReaddirSync ''/app/downloads'' (Some [''old.json'']), DateNow 100, SetTimeout 100,
      ReaddirSync ''/app/downloads'' (Some [''old.json'', ''out.json'']),
      StatSync ''/app/downloads/out.json'' (Some 500), SetTimeout 100,
      StatSync ''/app/downloads/out.json'' (Some 500),
      ConsoleLog ''Download completed: out.json'']"

definition idle_trace :: "effect list" where
  "idle_trace =
     [DateNow 0, ReaddirSync ''/app/downloads'' (Some [''old.json'']),
      ReaddirSync ''/app/downloads'' (Some [''old.json'']), DateNow 0, SetTimeout 100,
      ReaddirSync ''/app/downloads'' (Some [''old.json'']), DateNow 100, SetTimeout 100,
      ReaddirSync ''/app/downloads'' (Some [''old.json'']), DateNow 200, SetTimeout 100,
      ReaddirSync ''/app/downloads'' (Some [''old.json'']), DateNow 300,
      ConsoleLog ''Download timed out'']"

text \<open>
  A download that never ends: \<^verbatim>\<open>out.json\<close> appears right after the baseline is taken and
  is longer at every instant. A watch makes three calls per timer period.
\<close>

definition growing_env :: env where
  "growing_env i =
     \<lparr>Date_now = 100 * int ((i - 1) div 3),
      readdirSync = (\<lambda>d. if d = downloads then Some (if i < 2 then [] else [''out.json'']) else None),
      statSync_size = (\<lambda>p. if p = path_join downloads ''out.json'' then Some (1000 * i) else None)\<rparr>"

text \<open>
  A temporary download file that is listed from the first poll on and is gone (renamed)
  from instant \<open>gone\<close> on: reading its size then throws.
\<close>

definition vanishing_env :: "nat \<Rightarrow> env" where
  "vanishing_env gone i =
     \<lparr>Date_now = 100 * int ((i - 1) div 3),
      readdirSync =
        (\<lambda>d. if d = downloads then Some (if i < 2 then [] else [''out.crdownload'']) else None),
      statSync_size =
        (\<lambda>p. if p = path_join downloads ''out.crdownload'' \<and> i < gone then Some 10 else None)\<rparr>"

text \<open>An empty directory that can no longer be listed from the second poll on.\<close>

definition unreadable_env :: env where
  "unreadable_env i =
     \<lparr>Date_now = 100 * int ((i - 2) div 2),
      readdirSync = (\<lambda>d. if d = downloads \<and> i < 4 then Some [] else None),
      statSync_size = (\<lambda>p. None)\<rparr>"

definition unreadable_trace :: "effect list" where
  "unreadable_trace =
     [DateNow 0, ReaddirSync ''/app/downloads'' (Some []),
      ReaddirSync ''/app/downloads'' (Some []), DateNow 0, SetTimeout 100,
      ReaddirSync ''/app/downloads'' None]"

text \<open>No awaited call throws.\<close>

definition no_throw :: "collaborator \<Rightarrow> bool" where
  "no_throw s = False"

text \<open>
  What the main function prints once the browser and the server are closed:
  \<^verbatim>\<open>if (downloadedFile) ... else ...\<close>, by cases.
\<close>

fun report :: "string option \<Rightarrow> string \<Rightarrow> effect" where
  "report None dlPath = ConsoleError (''Failed to download JSON file to: '' @ dlPath)"
| "report (Some p) dlPath =
     (if p = [] then ConsoleError (''Failed to download JSON file to: '' @ dlPath)
      else ConsoleLog (''JSON file successfully downloaded to: '' @ p))"

text \<open>What a second watch, started when that one has ended, does.\<close>

definition oneshot_second_trace :: "effect list" where
  "oneshot_second_trace =
     [DateNow 300, ReaddirSync ''/app/downloads'' (Some [''out.json'']),
      ReaddirSync ''/app/downloads'' (Some [''out.json'']), DateNow 500, SetTimeout 100,
      ReaddirSync ''/app/downloads'' (Some [''out.json'']), DateNow 600,
      ConsoleLog ''Download timed out'']"

section \<open>One entry of checkDownload\<close>

text \<open>The seven ways through the body of \<^verbatim>\<open>checkDownload\<close>.\<close>

lemma body_elims:
  assumes "checkDownload_body env c t i = (k, n, es)"
  obtains
    (list_fail) "readdirSync (env i) (downloadPath c) = None"
       "k = Settle (Inl (throw t (IOError (downloadPath c))))" "n = i + 1"
       "es = [ReaddirSync (downloadPath c) None]"
  | (stat1_fail) cur where "readdirSync (env i) (downloadPath c) = Some cur"
       "newFiles_of (initialFiles c) cur \<noteq> []"
       "statSync_size (env (i + 1)) (path_join (downloadPath c) (hd (newFiles_of (initialFiles c) cur))) = None"
       "k = Settle (Inl (throw t (IOError (path_join (downloadPath c) (hd (newFiles_of (initialFiles c) cur))))))"
       "n = i + 2"
       "es = [ReaddirSync (downloadPath c) (Some cur),
              StatSync (path_join (downloadPath c) (hd (newFiles_of (initialFiles c) cur))) None]"
  | (stat2_fail) cur s where "readdirSync (env i) (downloadPath c) = Some cur"
       "newFiles_of (initialFiles c) cur \<noteq> []"
       "statSync_size (env (i + 1)) (path_join (downloadPath c) (hd (newFiles_of (initialFiles c) cur))) = Some s"
       "statSync_size (env (i + 2)) (path_join (downloadPath c) (hd (newFiles_of (initialFiles c) cur))) = None"
       "k = Settle (Inl (Uncaught (IOError (path_join (downloadPath c) (hd (newFiles_of (initialFiles c) cur))))))"
       "n = i + 3"
       "es = [ReaddirSync (downloadPath c) (Some cur),
              StatSync (path_join (downloadPath c) (hd (newFiles_of (initialFiles c) cur))) (Some s),
              SetTimeout 100,
              StatSync (path_join (downloadPath c) (hd (newFiles_of (initialFiles c) cur))) None]"
  | (stable) cur s where "readdirSync (env i) (downloadPath c) = Some cur"
       "newFiles_of (initialFiles c) cur \<noteq> []"
       "statSync_size (env (i + 1)) (path_join (downloadPath c) (hd (newFiles_of (initialFiles c) cur))) = Some s"
       "statSync_size (env (i + 2)) (path_join (downloadPath c) (hd (newFiles_of (initialFiles c) cur))) = Some s"
       "k = Settle (Inr (Some (path_join (downloadPath c) (hd (newFiles_of (initialFiles c) cur)))))"
       "n = i + 3"
       "es = [ReaddirSync (downloadPath c) (Some cur),
              StatSync (path_join (downloadPath c) (hd (newFiles_of (initialFiles c) cur))) (Some s),
              SetTimeout 100,
              StatSync (path_join (downloadPath c) (hd (newFiles_of (initialFiles c) cur))) (Some s),
              ConsoleLog (''Download completed: '' @ hd (newFiles_of (initialFiles c) cur))]"
  | (changed) cur s s' where "readdirSync (env i) (downloadPath c) = Some cur"
       "newFiles_of (initialFiles c) cur \<noteq> []"
       "statSync_size (env (i + 1)) (path_join (downloadPath c) (hd (newFiles_of (initialFiles c) cur))) = Some s"
       "statSync_size (env (i + 2)) (path_join (downloadPath c) (hd (newFiles_of (initialFiles c) cur))) = Some s'"
       "s \<noteq> s'"
       "k = Again" "n = i + 3"
       "es = [ReaddirSync (downloadPath c) (Some cur),
              StatSync (path_join (downloadPath c) (hd (newFiles_of (initialFiles c) cur))) (Some s),
              SetTimeout 100,
              StatSync (path_join (downloadPath c) (hd (newFiles_of (initialFiles c) cur))) (Some s')]"
  | (wait) cur where "readdirSync (env i) (downloadPath c) = Some cur"
       "newFiles_of (initialFiles c) cur = []"
       "Date_now (env (i + 1)) - startTime c < timeout c"
       "k = Again" "n = i + 2"
       "es = [ReaddirSync (downloadPath c) (Some cur), DateNow (Date_now (env (i + 1))), SetTimeout 100]"
  | (timed_out) cur where "readdirSync (env i) (downloadPath c) = Some cur"
       "newFiles_of (initialFiles c) cur = []"
       "\<not> Date_now (env (i + 1)) - startTime c < timeout c"
       "k = Settle (Inr None)" "n = i + 2"
       "es = [ReaddirSync (downloadPath c) (Some cur), DateNow (Date_now (env (i + 1))),
              ConsoleLog ''Download timed out'']"
  using assms unfolding checkDownload_body_def Let_def
  by (auto split: option.splits if_splits)

lemma body_le:
  assumes "checkDownload_body env c t i = (k, n, es)"
  shows "i < n"
  using assms by (cases rule: body_elims) auto

lemma body_wait:
  assumes "readdirSync (env i) (downloadPath c) = Some cur"
    and "newFiles_of (initialFiles c) cur = []"
    and "Date_now (env (i + 1)) - startTime c < timeout c"
  shows "checkDownload_body env c t i =
    (Again, i + 2, [ReaddirSync (downloadPath c) (Some cur), DateNow (Date_now (env (i + 1))),
       SetTimeout 100])"
  using assms by (simp add: checkDownload_body_def Let_def)

lemma body_timed_out:
  assumes "readdirSync (env i) (downloadPath c) = Some cur"
    and "newFiles_of (initialFiles c) cur = []"
    and "timeout c \<le> Date_now (env (i + 1)) - startTime c"
  shows "checkDownload_body env c t i =
    (Settle (Inr None), i + 2, [ReaddirSync (downloadPath c) (Some cur),
       DateNow (Date_now (env (i + 1))), ConsoleLog ''Download timed out''])"
  using assms by (simp add: checkDownload_body_def Let_def)

lemma body_changed:
  assumes "readdirSync (env i) (downloadPath c) = Some cur"
    and "newFiles_of (initialFiles c) cur \<noteq> []"
    and "statSync_size (env (i + 1)) (filePath_of c cur) = Some s"
    and "statSync_size (env (i + 2)) (filePath_of c cur) = Some s'"
    and "s \<noteq> s'"
  shows "checkDownload_body env c t i =
    (Again, i + 3, [ReaddirSync (downloadPath c) (Some cur), StatSync (filePath_of c cur) (Some s),
       SetTimeout 100, StatSync (filePath_of c cur) (Some s')])"
  using assms by (simp add: checkDownload_body_def Let_def)

lemma body_list_fail:
  assumes "readdirSync (env i) (downloadPath c) = None"
  shows "checkDownload_body env c t i =
    (Settle (Inl (throw t (IOError (downloadPath c)))), i + 1, [ReaddirSync (downloadPath c) None])"
  using assms by (simp add: checkDownload_body_def Let_def)

lemma body_stat1_fail:
  assumes "readdirSync (env i) (downloadPath c) = Some cur"
    and "newFiles_of (initialFiles c) cur \<noteq> []"
    and "statSync_size (env (i + 1)) (filePath_of c cur) = None"
  shows "checkDownload_body env c t i =
    (Settle (Inl (throw t (IOError (filePath_of c cur)))), i + 2,
     [ReaddirSync (downloadPath c) (Some cur), StatSync (filePath_of c cur) None])"
  using assms by (simp add: checkDownload_body_def Let_def)

lemma body_stat2_fail:
  assumes "readdirSync (env i) (downloadPath c) = Some cur"
    and "newFiles_of (initialFiles c) cur \<noteq> []"
    and "statSync_size (env (i + 1)) (filePath_of c cur) = Some s"
    and "statSync_size (env (i + 2)) (filePath_of c cur) = None"
  shows "checkDownload_body env c t i =
    (Settle (Inl (Uncaught (IOError (filePath_of c cur)))), i + 3,
     [ReaddirSync (downloadPath c) (Some cur), StatSync (filePath_of c cur) (Some s),
      SetTimeout 100, StatSync (filePath_of c cur) None])"
  using assms by (simp add: checkDownload_body_def Let_def)

lemma checkDownload_settle:
  "checkDownload_body env c t i = (Settle r, n, es) \<Longrightarrow>
   checkDownload env c t i tr = Some (r, n, tr @ es)"
  by (subst checkDownload.simps) simp

lemma checkDownload_again:
  "checkDownload_body env c t i = (Again, n, es) \<Longrightarrow>
   checkDownload env c t i tr = checkDownload env c True n (tr @ es)"
  by (subst checkDownload.simps) simp

section \<open>Runs that return\<close>

text \<open>
  Induction over a run of \<^verbatim>\<open>checkDownload\<close> that returns: the body settles, or it enters
  \<^verbatim>\<open>checkDownload\<close> again and that run returns.
\<close>

lemma checkDownload_induct [consumes 1, case_names settle again]:
  assumes run: "checkDownload env c t i tr = Some y"
    and settle: "\<And>t i tr r n es.
      checkDownload_body env c t i = (Settle r, n, es) \<Longrightarrow> P t i tr (r, n, tr @ es)"
    and again: "\<And>t i tr n es y.
      checkDownload_body env c t i = (Again, n, es) \<Longrightarrow> P True n (tr @ es) y \<Longrightarrow> P t i tr y"
  shows "P t i tr y"
proof -
  let ?Q = "\<lambda>env' c' t i tr y. env' = env \<longrightarrow> c' = c \<longrightarrow> P t i tr y"
  have "?Q env c t i tr y"
  proof (rule checkDownload.raw_induct [where P = ?Q, OF _ run])
    fix f env' c' t i tr y
    assume IH: "\<And>env' c' t i tr y. f env' c' t i tr = Some y \<Longrightarrow> ?Q env' c' t i tr y"
      and step: "(case checkDownload_body env' c' t i of
                    (Settle r, n, es) \<Rightarrow> Some (r, n, tr @ es)
                  | (Again, n, es) \<Rightarrow> f env' c' True n (tr @ es)) = Some y"
    show "?Q env' c' t i tr y"
    proof (intro impI)
      assume eq: "env' = env" "c' = c"
      obtain k n es where b: "checkDownload_body env c t i = (k, n, es)"
        by (metis prod_cases3)
      show "P t i tr y"
      proof (cases k)
        case (Settle r)
        with b step eq have "y = (r, n, tr @ es)" by simp
        with settle [of t i r n es tr] b Settle show ?thesis by simp
      next
        case Again
        with b step eq have "f env c True n (tr @ es) = Some y" by simp
        from IH [OF this] have "P True n (tr @ es) y" by simp
        with again [of t i n es tr y] b Again show ?thesis by simp
      qed
    qed
  qed
  then show ?thesis by simp
qed

lemma path_join_inject [simp]: "path_join d f = path_join d g \<longleftrightarrow> f = g"
  by (simp add: path_join_def)

lemma take_path_join [simp]: "take (Suc (length d)) (path_join d f) = d @ ''/''"
  by (simp add: path_join_def)

lemma checkDownload_null:
  assumes "checkDownload env c t i tr = Some y" and "fst y = Inr None"
  shows "\<exists>cur pre n. y = (Inr None, n + 2, tr @ pre @ [ReaddirSync (downloadPath c) (Some cur),
              DateNow (Date_now (env (n + 1))), ConsoleLog ''Download timed out''])
           \<and> i \<le> n \<and> readdirSync (env n) (downloadPath c) = Some cur
           \<and> newFiles_of (initialFiles c) cur = []
           \<and> timeout c \<le> Date_now (env (n + 1)) - startTime c"
  using assms
proof (induction t i tr y rule: checkDownload_induct)
  case (settle t i tr r n es)
  from settle(1) show ?case
    by (cases rule: body_elims) (use settle(2) in auto)
next
  case (again t i tr n es y)
  from again(2) [OF again(3)] obtain cur pre m where
    y: "y = (Inr None, m + 2, (tr @ es) @ pre @ [ReaddirSync (downloadPath c) (Some cur),
              DateNow (Date_now (env (m + 1))), ConsoleLog ''Download timed out''])"
    and rest: "n \<le> m" "readdirSync (env m) (downloadPath c) = Some cur"
      "newFiles_of (initialFiles c) cur = []"
      "timeout c \<le> Date_now (env (m + 1)) - startTime c"
    by blast
  from again(1) have "i \<le> n" by (cases rule: body_elims) auto
  with y rest show ?case
    by (intro exI [of _ cur] exI [of _ "es @ pre"] exI [of _ m]) simp
qed

lemma checkDownload_path:
  assumes "checkDownload env c t i tr = Some y" and "fst y = Inr (Some p)"
  shows "\<exists>cur s pre n. y = (Inr (Some p), n + 3,
              tr @ pre @ [ReaddirSync (downloadPath c) (Some cur), StatSync p (Some s),
                SetTimeout 100, StatSync p (Some s),
                ConsoleLog (''Download completed: '' @ hd (newFiles_of (initialFiles c) cur))])
           \<and> i \<le> n \<and> readdirSync (env n) (downloadPath c) = Some cur
           \<and> newFiles_of (initialFiles c) cur \<noteq> []
           \<and> p = filePath_of c cur
           \<and> statSync_size (env (n + 1)) p = Some s
           \<and> statSync_size (env (n + 2)) p = Some s"
  using assms
proof (induction t i tr y rule: checkDownload_induct)
  case (settle t i tr r n es)
  from settle(1) show ?case
    by (cases rule: body_elims) (use settle(2) in auto)
next
  case (again t i tr n es y)
  from again(2) [OF again(3)] obtain cur s pre m where
    y: "y = (Inr (Some p), m + 3,
              (tr @ es) @ pre @ [ReaddirSync (downloadPath c) (Some cur), StatSync p (Some s),
                SetTimeout 100, StatSync p (Some s),
                ConsoleLog (''Download completed: '' @ hd (newFiles_of (initialFiles c) cur))])"
    and rest: "n \<le> m" "readdirSync (env m) (downloadPath c) = Some cur"
      "newFiles_of (initialFiles c) cur \<noteq> []" "p = filePath_of c cur"
      "statSync_size (env (m + 1)) p = Some s" "statSync_size (env (m + 2)) p = Some s"
    by blast
  from again(1) have "i < n" by (rule body_le)
  with y rest show ?case
    by (intro exI [of _ cur] exI [of _ s] exI [of _ "es @ pre"] exI [of _ m]) simp
qed

lemma checkDownload_effects:
  assumes "checkDownload env c t i tr = Some y"
  shows "\<exists>es. snd (snd y) = tr @ es
           \<and> (\<forall>e\<in>set es. reads_only (downloadPath c) e)
           \<and> (\<forall>e\<in>set es. failed e \<longrightarrow> isl (fst y))"
  using assms
proof (induction t i tr y rule: checkDownload_induct)
  case (settle t i tr r n es)
  from settle(1) show ?case
    by (cases rule: body_elims) auto
next
  case (again t i tr n es y)
  from again(2) obtain es' where
    es': "snd (snd y) = (tr @ es) @ es'" "\<forall>e\<in>set es'. reads_only (downloadPath c) e"
      "\<forall>e\<in>set es'. failed e \<longrightarrow> isl (fst y)"
    by blast
  from again(1) have "(\<forall>e\<in>set es. reads_only (downloadPath c) e) \<and> (\<forall>e\<in>set es. \<not> failed e)"
    by (cases rule: body_elims) auto
  with es' show ?case
    by (intro exI [of _ "es @ es'"]) auto
qed

lemma checkDownload_quiet:
  assumes "\<And>k. k \<le> N \<Longrightarrow>
      \<exists>cur. readdirSync (env (i + 2 * k)) (downloadPath c) = Some cur
          \<and> newFiles_of (initialFiles c) cur = []"
    and "\<And>k. k < N \<Longrightarrow> Date_now (env (i + 2 * k + 1)) - startTime c < timeout c"
    and "timeout c \<le> Date_now (env (i + 2 * N + 1)) - startTime c"
  shows "\<exists>tr'. checkDownload env c t i tr = Some (Inr None, i + 2 * N + 2, tr')"
  using assms
proof (induction N arbitrary: i t tr)
  case 0
  from 0(1) [of 0] obtain cur where
    "readdirSync (env i) (downloadPath c) = Some cur" "newFiles_of (initialFiles c) cur = []"
    by auto
  with 0(3) have "checkDownload_body env c t i =
    (Settle (Inr None), i + 2, [ReaddirSync (downloadPath c) (Some cur),
       DateNow (Date_now (env (i + 1))), ConsoleLog ''Download timed out''])"
    by (intro body_timed_out) simp_all
  from checkDownload_settle [OF this] show ?case by simp
next
  case (Suc N)
  from Suc.prems(1) [of 0] obtain cur where
    cur: "readdirSync (env i) (downloadPath c) = Some cur" "newFiles_of (initialFiles c) cur = []"
    by auto
  from Suc.prems(2) [of 0] have "Date_now (env (i + 1)) - startTime c < timeout c" by simp
  with cur have "checkDownload_body env c t i =
    (Again, i + 2, [ReaddirSync (downloadPath c) (Some cur), DateNow (Date_now (env (i + 1))),
       SetTimeout 100])"
    by (intro body_wait)
  note step = checkDownload_again [OF this, of tr]
  have "\<exists>tr'. checkDownload env c True (i + 2)
      (tr @ [ReaddirSync (downloadPath c) (Some cur), DateNow (Date_now (env (i + 1))),
       SetTimeout 100]) = Some (Inr None, (i + 2) + 2 * N + 2, tr')"
  proof (rule Suc.IH)
    fix k assume "k \<le> N"
    with Suc.prems(1) [of "Suc k"]
    show "\<exists>cur. readdirSync (env (i + 2 + 2 * k)) (downloadPath c) = Some cur
          \<and> newFiles_of (initialFiles c) cur = []"
      by (simp add: add.commute add.left_commute)
  next
    fix k assume "k < N"
    with Suc.prems(2) [of "Suc k"]
    show "Date_now (env (i + 2 + 2 * k + 1)) - startTime c < timeout c"
      by (simp add: add.commute add.left_commute)
  next
    from Suc.prems(3)
    show "timeout c \<le> Date_now (env (i + 2 + 2 * N + 1)) - startTime c"
      by (simp add: add.commute add.left_commute)
  qed
  with step show ?case by (simp add: add.commute add.left_commute)
qed

lemma waitForDownload_cases [consumes 1, case_names no_dir watch]:
  assumes "waitForDownload env dir tmo = Some y"
  obtains
    (no_dir) "readdirSync (env 1) dir = None"
      "y = (Inl (Rejected (IOError dir)), 2, [DateNow (Date_now (env 0)), ReaddirSync dir None])"
  | (watch) initial where "readdirSync (env 1) dir = Some initial"
      "checkDownload env
         \<lparr>downloadPath = dir, timeout = tmo, startTime = Date_now (env 0), initialFiles = initial\<rparr>
         False 2 [DateNow (Date_now (env 0)), ReaddirSync dir (Some initial)] = Some y"
  using assms unfolding waitForDownload_def Let_def
  by (auto split: option.splits)

lemma waitForDownload_quiet:
  assumes base: "readdirSync (env 1) dir = Some initial"
    and quiet: "\<And>k. k \<le> N \<Longrightarrow>
      \<exists>cur. readdirSync (env (2 * k + 2)) dir = Some cur \<and> newFiles_of initial cur = []"
    and early: "\<And>k. k < N \<Longrightarrow> Date_now (env (2 * k + 3)) - Date_now (env 0) < tmo"
    and late: "tmo \<le> Date_now (env (2 * N + 3)) - Date_now (env 0)"
  shows "\<exists>tr. waitForDownload env dir tmo = Some (Inr None, 2 * N + 4, tr)"
proof -
  let ?c = "\<lparr>downloadPath = dir, timeout = tmo, startTime = Date_now (env 0),
             initialFiles = initial\<rparr>"
  have "\<exists>tr'. checkDownload env ?c False 2 [DateNow (Date_now (env 0)), ReaddirSync dir (Some initial)]
     = Some (Inr None, 2 + 2 * N + 2, tr')"
  proof (rule checkDownload_quiet)
    fix k assume "k \<le> N"
    from quiet [OF this]
    show "\<exists>cur. readdirSync (env (2 + 2 * k)) (downloadPath ?c) = Some cur
          \<and> newFiles_of (initialFiles ?c) cur = []"
      by (simp add: add.commute)
  next
    fix k assume "k < N"
    from early [OF this]
    show "Date_now (env (2 + 2 * k + 1)) - startTime ?c < timeout ?c"
      by (simp add: add.commute numeral_3_eq_3)
  next
    from late show "timeout ?c \<le> Date_now (env (2 + 2 * N + 1)) - startTime ?c"
      by (simp add: add.commute numeral_3_eq_3)
  qed
  then obtain tr' where
    r: "checkDownload env ?c False 2 [DateNow (Date_now (env 0)), ReaddirSync dir (Some initial)]
     = Some (Inr None, 2 + 2 * N + 2, tr')" ..
  have n: "2 + 2 * N + 2 = 2 * N + 4" by simp
  from base r [unfolded n] show ?thesis
    by (simp add: waitForDownload_def Let_def)
qed

section \<open>The concrete runs, evaluated\<close>

lemma oneshot_run:
  "waitForDownload oneshot_env downloads 300 =
     Some (Inr (Some ''/app/downloads/out.json''), 9, oneshot_trace)"
  by code_simp

lemma oneshot_second_run:
  "waitForDownload (\<lambda>k. oneshot_env (9 + k)) downloads 300 =
     Some (Inr None, 6, oneshot_second_trace)"
  by code_simp

lemma overwrite_run:
  "waitForDownload overwrite_env downloads 300 =
     Some (Inr (Some ''/app/downloads/out.json''), 9, overwrite_trace)"
  by code_simp

lemma idle_run:
  "waitForDownload idle_env downloads 300 = Some (Inr None, 10, idle_trace)"
  by code_simp

lemma vanishing_run_first_read:
  "waitForDownload (vanishing_env 3) downloads 300 =
     Some (Inl (Rejected (IOError ''/app/downloads/out.crdownload'')), 4,
       [DateNow 0, ReaddirSync ''/app/downloads'' (Some []),
        ReaddirSync ''/app/downloads'' (Some [''out.crdownload'']),
        StatSync ''/app/downloads/out.crdownload'' None])"
  by code_simp

lemma vanishing_run_second_read:
  "waitForDownload (vanishing_env 4) downloads 300 =
     Some (Inl (Uncaught (IOError ''/app/downloads/out.crdownload'')), 5,
       [DateNow 0, ReaddirSync ''/app/downloads'' (Some []),
        ReaddirSync ''/app/downloads'' (Some [''out.crdownload'']),
        StatSync ''/app/downloads/out.crdownload'' (Some 10), SetTimeout 100,
        StatSync ''/app/downloads/out.crdownload'' None])"
  by code_simp

lemma unreadable_run:
  "waitForDownload unreadable_env downloads 30000 =
     Some (Inl (Uncaught (IOError ''/app/downloads'')), 5, unreadable_trace)"
  by code_simp

section \<open>Completion is reported after two equal size reads\<close>

text \<open>
  Claim C3. When \<^verbatim>\<open>waitForDownload\<close> resolves with a path, the last calls of the run were
  two reads of the size of that very path, one on each side of a 100 ms timer, and both
  gave the same size: the trace ends with the first read, the timer, the second read and
  the completion message, and the two reads are the last two observations of the run.
\<close>

theorem reported_only_after_stable_size:
  assumes "waitForDownload env dir tmo = Some (Inr (Some p), n, tr)"
  shows "\<exists>s pre name. 3 \<le> n
           \<and> statSync_size (env (n - 2)) p = Some s
           \<and> statSync_size (env (n - 1)) p = Some s
           \<and> tr = pre @ [StatSync p (Some s), SetTimeout 100, StatSync p (Some s),
                          ConsoleLog (''Download completed: '' @ name)]"
  using assms
proof (cases rule: waitForDownload_cases)
  case no_dir
  then show ?thesis by simp
next
  case (watch initial)
  let ?c = "\<lparr>downloadPath = dir, timeout = tmo, startTime = Date_now (env 0),
             initialFiles = initial\<rparr>"
  from checkDownload_path [OF watch(2), of p] obtain cur s pre m where
    "(Inr (Some p), n, tr) = (Inr (Some p), m + 3,
        [DateNow (Date_now (env 0)), ReaddirSync dir (Some initial)] @ pre @
        [ReaddirSync (downloadPath ?c) (Some cur), StatSync p (Some s),
         SetTimeout 100, StatSync p (Some s),
         ConsoleLog (''Download completed: '' @ hd (newFiles_of (initialFiles ?c) cur))])"
    and "statSync_size (env (m + 1)) p = Some s" "statSync_size (env (m + 2)) p = Some s"
    by auto
  then show ?thesis
    by (intro exI [of _ s]
          exI [of _ "[DateNow (Date_now (env 0)), ReaddirSync dir (Some initial)] @ pre @
                     [ReaddirSync dir (Some cur)]"]
          exI [of _ "hd (newFiles_of initial cur)"]) simp
qed

theorem reported_only_after_stable_size_witness:
  "waitForDownload oneshot_env downloads 300 =
     Some (Inr (Some ''/app/downloads/out.json''), 9, oneshot_trace) \<and>
   (\<exists>s pre name. (3::nat) \<le> 9
      \<and> statSync_size (oneshot_env (9 - 2)) ''/app/downloads/out.json'' = Some s
      \<and> statSync_size (oneshot_env (9 - 1)) ''/app/downloads/out.json'' = Some s
      \<and> oneshot_trace =
          pre @ [StatSync ''/app/downloads/out.json'' (Some s), SetTimeout 100,
                 StatSync ''/app/downloads/out.json'' (Some s),
                 ConsoleLog (''Download completed: '' @ name)])"
  using reported_only_after_stable_size [OF oneshot_run] oneshot_run
  by simp

section \<open>The candidate\<close>

lemma first_new_entry:
  assumes "newFiles_of initial cur \<noteq> []"
  shows "\<exists>before rest. cur = before @ hd (newFiles_of initial cur) # rest
           \<and> set before \<subseteq> set initial \<and> hd (newFiles_of initial cur) \<notin> set initial"
  using assms
proof (induction cur)
  case Nil
  then show ?case by (simp add: newFiles_of_def)
next
  case (Cons x xs)
  show ?case
  proof (cases "x \<in> set initial")
    case True
    with Cons.prems have "newFiles_of initial xs \<noteq> []"
      and hd: "hd (newFiles_of initial (x # xs)) = hd (newFiles_of initial xs)"
      by (simp_all add: newFiles_of_def)
    from Cons.IH [OF this(1)] obtain before rest where
      "xs = before @ hd (newFiles_of initial xs) # rest" "set before \<subseteq> set initial"
      "hd (newFiles_of initial xs) \<notin> set initial"
      by blast
    with True hd show ?thesis
      by (intro exI [of _ "x # before"] exI [of _ rest]) simp
  next
    case False
    then have "hd (newFiles_of initial (x # xs)) = x" by (simp add: newFiles_of_def)
    with False show ?thesis
      by (intro exI [of _ "[]"] exI [of _ xs]) simp
  qed
qed

lemma body_candidate:
  assumes "readdirSync (env i) (downloadPath c) = Some cur"
    and "newFiles_of (initialFiles c) cur \<noteq> []"
  shows "\<exists>es. snd (snd (checkDownload_body env c t i)) =
           ReaddirSync (downloadPath c) (Some cur)
           # StatSync (filePath_of c cur) (statSync_size (env (i + 1)) (filePath_of c cur)) # es"
  using assms by (simp add: checkDownload_body_def Let_def split: option.splits)

text \<open>
  Claim C5. At every entry of \<^verbatim>\<open>checkDownload\<close> whose listing has an entry outside the
  baseline, the file whose size is read next is the first such entry in the order of the
  listing: everything listed before it is in the baseline. And every path
  \<^verbatim>\<open>waitForDownload\<close> resolves with is the watched directory joined with that first new
  entry of the last listing of the run.
\<close>

theorem candidate_is_first_new_entry:
  "(readdirSync (env i) (downloadPath c) = Some cur \<longrightarrow> newFiles_of (initialFiles c) cur \<noteq> [] \<longrightarrow>
      (\<exists>before f rest es. cur = before @ f # rest
         \<and> set before \<subseteq> set (initialFiles c) \<and> f \<notin> set (initialFiles c)
         \<and> snd (snd (checkDownload_body env c t i)) =
             ReaddirSync (downloadPath c) (Some cur)
             # StatSync (path_join (downloadPath c) f)
                 (statSync_size (env (i + 1)) (path_join (downloadPath c) f)) # es))
   \<and> (waitForDownload env' dir tmo = Some (Inr (Some p), n, tr) \<longrightarrow>
      (\<exists>initial cur before f rest. readdirSync (env' 1) dir = Some initial
         \<and> 3 \<le> n \<and> readdirSync (env' (n - 3)) dir = Some cur
         \<and> cur = before @ f # rest \<and> set before \<subseteq> set initial \<and> f \<notin> set initial
         \<and> p = path_join dir f))"
proof (intro conjI impI)
  assume l: "readdirSync (env i) (downloadPath c) = Some cur"
    and ne: "newFiles_of (initialFiles c) cur \<noteq> []"
  from first_new_entry [OF ne] obtain before rest where
    "cur = before @ hd (newFiles_of (initialFiles c) cur) # rest"
    "set before \<subseteq> set (initialFiles c)" "hd (newFiles_of (initialFiles c) cur) \<notin> set (initialFiles c)"
    by blast
  moreover from body_candidate [of env i c cur t] l ne obtain es where
    "snd (snd (checkDownload_body env c t i)) =
           ReaddirSync (downloadPath c) (Some cur)
           # StatSync (filePath_of c cur) (statSync_size (env (i + 1)) (filePath_of c cur)) # es"
    by blast
  ultimately show "\<exists>before f rest es. cur = before @ f # rest
         \<and> set before \<subseteq> set (initialFiles c) \<and> f \<notin> set (initialFiles c)
         \<and> snd (snd (checkDownload_body env c t i)) =
             ReaddirSync (downloadPath c) (Some cur)
             # StatSync (path_join (downloadPath c) f)
                 (statSync_size (env (i + 1)) (path_join (downloadPath c) f)) # es"
    by blast
next
  assume "waitForDownload env' dir tmo = Some (Inr (Some p), n, tr)"
  then show "\<exists>initial cur before f rest. readdirSync (env' 1) dir = Some initial
         \<and> 3 \<le> n \<and> readdirSync (env' (n - 3)) dir = Some cur
         \<and> cur = before @ f # rest \<and> set before \<subseteq> set initial \<and> f \<notin> set initial
         \<and> p = path_join dir f"
  proof (cases rule: waitForDownload_cases)
    case no_dir
    then show ?thesis by simp
  next
    case (watch initial)
    let ?c = "\<lparr>downloadPath = dir, timeout = tmo, startTime = Date_now (env' 0),
               initialFiles = initial\<rparr>"
    from checkDownload_path [OF watch(2), of p] obtain cur m where
      m: "n = m + 3" "readdirSync (env' m) dir = Some cur" "newFiles_of initial cur \<noteq> []"
        "p = path_join dir (hd (newFiles_of initial cur))"
      by auto
    from first_new_entry [OF m(3)] obtain before rest where
      "cur = before @ hd (newFiles_of initial cur) # rest" "set before \<subseteq> set initial"
      "hd (newFiles_of initial cur) \<notin> set initial"
      by blast
    with m watch(1) show ?thesis by auto
  qed
qed

theorem candidate_is_first_new_entry_witness:
  "readdirSync (overwrite_env 6) downloads = Some [''old.json'', ''out.json'']
   \<and> newFiles_of [''old.json''] [''old.json'', ''out.json''] \<noteq> []
   \<and> waitForDownload overwrite_env downloads 300 =
       Some (Inr (Some ''/app/downloads/out.json''), 9, overwrite_trace)
   \<and> (\<exists>before f rest es. [''old.json'', ''out.json''] = before @ f # rest
         \<and> set before \<subseteq> {''old.json''} \<and> f \<notin> {''old.json''}
         \<and> snd (snd (checkDownload_body overwrite_env
               \<lparr>downloadPath = downloads, timeout = 300, startTime = 0, initialFiles = [''old.json'']\<rparr>
               True 6)) =
             ReaddirSync downloads (Some [''old.json'', ''out.json''])
             # StatSync (path_join downloads f)
                 (statSync_size (overwrite_env 7) (path_join downloads f)) # es)
   \<and> (\<exists>initial cur before f rest. readdirSync (overwrite_env 1) downloads = Some initial
         \<and> readdirSync (overwrite_env 6) downloads = Some cur
         \<and> cur = before @ f # rest \<and> set before \<subseteq> set initial \<and> f \<notin> set initial
         \<and> ''/app/downloads/out.json'' = path_join downloads f)"
proof -
  have l: "readdirSync (overwrite_env 6) downloads = Some [''old.json'', ''out.json'']"
    by (simp add: overwrite_env_def)
  have ne: "newFiles_of [''old.json''] [''old.json'', ''out.json''] \<noteq> []"
    by (simp add: newFiles_of_def)
  note inst = candidate_is_first_new_entry [of overwrite_env 6
      "\<lparr>downloadPath = downloads, timeout = 300, startTime = 0, initialFiles = [''old.json'']\<rparr>"
      "[''old.json'', ''out.json'']" True overwrite_env downloads 300
      "''/app/downloads/out.json''" 9 overwrite_trace]
  from inst l ne overwrite_run show ?thesis by simp
qed

text \<open>
  Claim C9. New files are told from old ones by name only: a name that is in the baseline
  listing is never the file \<^verbatim>\<open>waitForDownload\<close> resolves with, whatever happens to the size
  of that file during the watch.
\<close>

theorem baseline_names_never_reported:
  assumes "waitForDownload env dir tmo = Some (Inr (Some p), n, tr)"
    and "readdirSync (env 1) dir = Some initial"
    and "f \<in> set initial"
  shows "p \<noteq> path_join dir f"
  using assms(1)
proof (cases rule: waitForDownload_cases)
  case no_dir
  then show ?thesis by simp
next
  case (watch initial')
  with assms(2) have "initial' = initial" by simp
  with checkDownload_path [OF watch(2), of p] obtain cur where
    ne: "newFiles_of initial cur \<noteq> []" and p: "p = path_join dir (hd (newFiles_of initial cur))"
    by auto
  from first_new_entry [OF ne] have "hd (newFiles_of initial cur) \<notin> set initial" by blast
  with assms(3) p show ?thesis by auto
qed

theorem baseline_names_never_reported_witness:
  "waitForDownload overwrite_env downloads 300 =
       Some (Inr (Some ''/app/downloads/out.json''), 9, overwrite_trace)
   \<and> readdirSync (overwrite_env 1) downloads = Some [''old.json'']
   \<and> ''old.json'' \<in> set [''old.json'']
   \<and> statSync_size (overwrite_env 3) (path_join downloads ''old.json'')
       \<noteq> statSync_size (overwrite_env 8) (path_join downloads ''old.json'')
   \<and> ''/app/downloads/out.json'' \<noteq> path_join downloads ''old.json''"
proof -
  have b: "readdirSync (overwrite_env 1) downloads = Some [''old.json'']"
    by (simp add: overwrite_env_def)
  have m: "''old.json'' \<in> set [''old.json'']" by simp
  have d: "statSync_size (overwrite_env 3) (path_join downloads ''old.json'')
       \<noteq> statSync_size (overwrite_env 8) (path_join downloads ''old.json'')"
    by (simp add: overwrite_env_def)
  from baseline_names_never_reported [OF overwrite_run b m] overwrite_run b m d
  show ?thesis by simp
qed

section \<open>Timing out\<close>

lemma newFiles_of_empty: "set cur \<subseteq> set initial \<Longrightarrow> newFiles_of initial cur = []"
  by (auto simp: newFiles_of_def filter_empty_conv)

text \<open>
  The first poll that reads an elapsed time of at least \<open>tmo\<close>, given that some poll does.
  Poll \<open>k\<close> lists the directory at instant \<open>2 * k + 2\<close> and reads the clock at instant
  \<open>2 * k + 3\<close> as long as no new entry shows up.
\<close>

lemma first_late_poll:
  fixes env :: env
  assumes "tmo \<le> Date_now (env (2 * N + 3)) - Date_now (env 0)"
  obtains M where "M \<le> N"
    and "tmo \<le> Date_now (env (2 * M + 3)) - Date_now (env 0)"
    and "\<And>k. k < M \<Longrightarrow> Date_now (env (2 * k + 3)) - Date_now (env 0) < tmo"
proof -
  let ?late = "\<lambda>k::nat. tmo \<le> Date_now (env (2 * k + 3)) - Date_now (env 0)"
  let ?M = "LEAST k. ?late k"
  from assms have "?late N" .
  then have "?late ?M" and "?M \<le> N"
    by (rule LeastI, rule Least_le)
  moreover have "Date_now (env (2 * k + 3)) - Date_now (env 0) < tmo" if "k < ?M" for k
    using not_less_Least [OF that] by simp
  ultimately show ?thesis using that by blast
qed

lemma waitForDownload_null:
  assumes "waitForDownload env dir tmo = Some (Inr None, n, tr)"
  shows "\<exists>initial cur. 4 \<le> n
           \<and> readdirSync (env 1) dir = Some initial
           \<and> readdirSync (env (n - 2)) dir = Some cur \<and> set cur \<subseteq> set initial
           \<and> tmo \<le> Date_now (env (n - 1)) - Date_now (env 0)"
  using assms
proof (cases rule: waitForDownload_cases)
  case no_dir
  then show ?thesis by simp
next
  case (watch initial)
  from checkDownload_null [OF watch(2)] obtain cur k where
    k: "n = k + 2" "2 \<le> k" "readdirSync (env k) dir = Some cur"
      "newFiles_of initial cur = []" "tmo \<le> Date_now (env (k + 1)) - Date_now (env 0)"
    by auto
  from k(4) have "set cur \<subseteq> set initial"
    by (auto simp: newFiles_of_def filter_empty_conv)
  with k watch(1) show ?thesis by simp
qed

text \<open>
  Claim C4, with ``at least'' for ``exceeds''. Let no listing of the watch fail or show a
  name outside the baseline, and let the clock pass the deadline at some poll. Then
  \<^verbatim>\<open>waitForDownload\<close> resolves with \<^verbatim>\<open>null\<close>, not with an exception, and it does so at a poll
  that reads an elapsed time of at least \<open>tmo\<close>, every poll before having read less. And
  whatever the directory does, a watch resolves with \<^verbatim>\<open>null\<close> only at a poll whose listing
  shows no name outside the baseline and whose clock reads an elapsed time of at least
  \<open>tmo'\<close>.
\<close>

theorem quiet_watch_times_out:
  assumes base: "readdirSync (env 1) dir = Some initial"
    and quiet: "\<And>i. \<exists>cur. readdirSync (env i) dir = Some cur \<and> set cur \<subseteq> set initial"
    and time: "tmo \<le> Date_now (env (2 * N + 3)) - Date_now (env 0)"
  shows "(\<exists>n tr. waitForDownload env dir tmo = Some (Inr None, n, tr)
           \<and> 4 \<le> n \<and> n \<le> 2 * N + 4
           \<and> tmo \<le> Date_now (env (n - 1)) - Date_now (env 0)
           \<and> (\<forall>k. 2 * k + 4 < n \<longrightarrow> Date_now (env (2 * k + 3)) - Date_now (env 0) < tmo))
       \<and> (waitForDownload env' dir' tmo' = Some (Inr None, m, tr') \<longrightarrow>
            (\<exists>initial' cur. 4 \<le> m
               \<and> readdirSync (env' 1) dir' = Some initial'
               \<and> readdirSync (env' (m - 2)) dir' = Some cur \<and> set cur \<subseteq> set initial'
               \<and> tmo' \<le> Date_now (env' (m - 1)) - Date_now (env' 0)))"
proof (intro conjI impI)
  from first_late_poll [OF time] obtain M where M: "M \<le> N"
    "tmo \<le> Date_now (env (2 * M + 3)) - Date_now (env 0)"
    "\<And>k. k < M \<Longrightarrow> Date_now (env (2 * k + 3)) - Date_now (env 0) < tmo"
    by blast
  have "\<exists>cur. readdirSync (env (2 * k + 2)) dir = Some cur \<and> newFiles_of initial cur = []" for k
    using quiet [of "2 * k + 2"] by (auto simp: newFiles_of_empty)
  from waitForDownload_quiet [OF base this M(3) M(2)]
  obtain tr where run: "waitForDownload env dir tmo = Some (Inr None, 2 * M + 4, tr)"
    by blast
  have last: "2 * M + 4 - 1 = 2 * M + 3" by simp
  show "\<exists>n tr. waitForDownload env dir tmo = Some (Inr None, n, tr)
           \<and> 4 \<le> n \<and> n \<le> 2 * N + 4
           \<and> tmo \<le> Date_now (env (n - 1)) - Date_now (env 0)
           \<and> (\<forall>k. 2 * k + 4 < n \<longrightarrow> Date_now (env (2 * k + 3)) - Date_now (env 0) < tmo)"
  proof (intro exI conjI allI impI)
    show "waitForDownload env dir tmo = Some (Inr None, 2 * M + 4, tr)" by (fact run)
    show "4 \<le> 2 * M + 4" by simp
    from M(1) show "2 * M + 4 \<le> 2 * N + 4" by simp
    from M(2) show "tmo \<le> Date_now (env (2 * M + 4 - 1)) - Date_now (env 0)"
      unfolding last .
  next
    fix k assume "2 * k + 4 < 2 * M + 4"
    then have "k < M" by simp
    then show "Date_now (env (2 * k + 3)) - Date_now (env 0) < tmo" by (rule M(3))
  qed
next
  assume "waitForDownload env' dir' tmo' = Some (Inr None, m, tr')"
  then show "\<exists>initial' cur. 4 \<le> m
               \<and> readdirSync (env' 1) dir' = Some initial'
               \<and> readdirSync (env' (m - 2)) dir' = Some cur \<and> set cur \<subseteq> set initial'
               \<and> tmo' \<le> Date_now (env' (m - 1)) - Date_now (env' 0)"
    by (rule waitForDownload_null)
qed

theorem quiet_watch_times_out_witness:
  "readdirSync (idle_env 1) downloads = Some [''old.json'']
   \<and> (\<forall>i. \<exists>cur. readdirSync (idle_env i) downloads = Some cur \<and> set cur \<subseteq> set [''old.json''])
   \<and> 300 \<le> Date_now (idle_env (2 * 5 + 3)) - Date_now (idle_env 0)
   \<and> waitForDownload idle_env downloads 300 = Some (Inr None, 10, idle_trace)
   \<and> (\<exists>n tr. waitForDownload idle_env downloads 300 = Some (Inr None, n, tr)
         \<and> 4 \<le> n \<and> n \<le> 2 * 5 + 4
         \<and> 300 \<le> Date_now (idle_env (n - 1)) - Date_now (idle_env 0)
         \<and> (\<forall>k. 2 * k + 4 < n \<longrightarrow> Date_now (idle_env (2 * k + 3)) - Date_now (idle_env 0) < 300))
   \<and> (\<exists>initial' cur. (4::nat) \<le> 10
         \<and> readdirSync (idle_env 1) downloads = Some initial'
         \<and> readdirSync (idle_env (10 - 2)) downloads = Some cur \<and> set cur \<subseteq> set initial'
         \<and> 300 \<le> Date_now (idle_env (10 - 1)) - Date_now (idle_env 0))"
proof -
  have base: "readdirSync (idle_env 1) downloads = Some [''old.json'']"
    by (simp add: idle_env_def)
  have quiet: "\<exists>cur. readdirSync (idle_env i) downloads = Some cur \<and> set cur \<subseteq> set [''old.json'']"
    for i by (simp add: idle_env_def)
  have time: "300 \<le> Date_now (idle_env (2 * 5 + 3)) - Date_now (idle_env 0)"
    by (simp add: idle_env_def)
  note inst = quiet_watch_times_out [OF base quiet time,
      where env' = idle_env and dir' = downloads and tmo' = 300 and m = 10 and tr' = idle_trace]
  from inst idle_run base quiet time
  show ?thesis by blast
qed

text \<open>
  As the claim words it (``exceeds''), C4 fails where a poll reads exactly the timeout: with
  polls 100 ms apart and a timeout of 300 ms the watch gives up at the poll that reads
  300 ms, which does not exceed 300 ms.
\<close>

theorem timeout_at_exact_deadline:
  "waitForDownload idle_env downloads 300 = Some (Inr None, 10, idle_trace)
   \<and> \<not> 300 < Date_now (idle_env (10 - 1)) - Date_now (idle_env 0)"
  using idle_run by (simp add: idle_env_def)

section \<open>The timeout and a file that keeps growing\<close>

lemma growing_body:
  assumes "2 \<le> i"
  shows "fst (checkDownload_body growing_env
           \<lparr>downloadPath = downloads, timeout = tmo, startTime = st, initialFiles = []\<rparr> t i) = Again"
  using assms
  by (simp add: checkDownload_body_def growing_env_def newFiles_of_def Let_def)

lemma growing_never_settles:
  assumes "checkDownload growing_env
             \<lparr>downloadPath = downloads, timeout = tmo, startTime = st, initialFiles = []\<rparr>
             t i tr = Some y"
  shows "i < 2"
  using assms
proof (induction t i tr y rule: checkDownload_induct)
  case (settle t i tr r n es)
  show ?case
  proof (rule ccontr)
    assume "\<not> i < 2"
    then have "2 \<le> i" by simp
    from growing_body [OF this, of tmo st t] settle show False by simp
  qed
next
  case (again t i tr n es y)
  from again(1) have "i < n" by (rule body_le)
  with again(2) show ?case by simp
qed

text \<open>
  Claim C1 fails on the code. With a timeout of 300 ms and a file that appears right after
  the baseline and is longer at every read, \<^verbatim>\<open>waitForDownload\<close> never returns: every
  entry of \<^verbatim>\<open>checkDownload\<close> finds the candidate, reads two different sizes and enters
  \<^verbatim>\<open>checkDownload\<close> again without looking at the clock.
\<close>

theorem growing_file_never_times_out:
  "waitForDownload growing_env downloads 300 = None"
proof (cases "waitForDownload growing_env downloads 300")
  case None
  then show ?thesis .
next
  case (Some y)
  then have "checkDownload growing_env
      \<lparr>downloadPath = downloads, timeout = 300, startTime = 0, initialFiles = []\<rparr>
      False 2 [DateNow 0, ReaddirSync downloads (Some [])] = Some y"
    by (simp add: waitForDownload_def growing_env_def Let_def)
  from growing_never_settles [OF this] show ?thesis by simp
qed

lemma clock_progress:
  fixes env :: env
  assumes "\<And>k. 0 < Date_now (env (2 * k + 5)) - Date_now (env (2 * k + 3))"
  shows "Date_now (env 3) + int k \<le> Date_now (env (2 * k + 3))"
proof (induction k)
  case 0
  show ?case by simp
next
  case (Suc k)
  have e: "2 * Suc k + 3 = 2 * k + 5" by simp
  from assms [of k] Suc show ?case unfolding e by simp
qed

text \<open>
  Claim C1, amended. Take a watch with a timeout that is not negative, during which no
  poll lists a name outside the baseline, and let \<open>d\<close> bound the time the clock shows
  between the start and the first poll and between one poll and the next (the poll
  interval, as the clock shows it). Then \<^verbatim>\<open>waitForDownload\<close> resolves with \<^verbatim>\<open>null\<close> at a poll
  whose elapsed time is at least \<open>tmo\<close> and at most \<open>tmo + d\<close>. A poll that finds a
  candidate does not consult the clock: when the two reads of the size differ,
  \<^verbatim>\<open>checkDownload\<close> is entered again whatever the elapsed time.
\<close>

theorem quiet_watch_returns_within_one_period:
  assumes base: "readdirSync (env 1) dir = Some initial"
    and quiet: "\<And>k. \<exists>cur. readdirSync (env (2 * k + 2)) dir = Some cur \<and> set cur \<subseteq> set initial"
    and nonneg: "0 \<le> tmo"
    and first: "Date_now (env 3) - Date_now (env 0) \<le> d"
    and period: "\<And>k. 0 < Date_now (env (2 * k + 5)) - Date_now (env (2 * k + 3))
                   \<and> Date_now (env (2 * k + 5)) - Date_now (env (2 * k + 3)) \<le> d"
  shows "(\<exists>n tr. waitForDownload env dir tmo = Some (Inr None, n, tr)
            \<and> tmo \<le> Date_now (env (n - 1)) - Date_now (env 0)
            \<and> Date_now (env (n - 1)) - Date_now (env 0) \<le> tmo + d)
       \<and> (readdirSync (env' i) (downloadPath c) = Some cur \<longrightarrow>
            newFiles_of (initialFiles c) cur \<noteq> [] \<longrightarrow>
            statSync_size (env' (i + 1)) (filePath_of c cur) = Some s \<longrightarrow>
            statSync_size (env' (i + 2)) (filePath_of c cur) = Some s' \<longrightarrow>
            s \<noteq> s' \<longrightarrow>
            fst (checkDownload_body env' c t i) = Again)"
proof (intro conjI impI)
  let ?el = "\<lambda>k. Date_now (env (2 * k + 3)) - Date_now (env 0)"
  define N where "N = nat (tmo - (Date_now (env 3) - Date_now (env 0)))"
  then have "tmo - (Date_now (env 3) - Date_now (env 0)) \<le> int N" by simp
  moreover from period have "0 < Date_now (env (2 * k + 5)) - Date_now (env (2 * k + 3))" for k
    by blast
  from clock_progress [OF this, of N]
  have "Date_now (env 3) + int N \<le> Date_now (env (2 * N + 3))" .
  ultimately have "tmo \<le> ?el N" by linarith
  from first_late_poll [OF this] obtain M where
    late: "tmo \<le> ?el M" and early: "\<And>k. k < M \<Longrightarrow> ?el k < tmo"
    by blast
  have "\<exists>cur. readdirSync (env (2 * k + 2)) dir = Some cur \<and> newFiles_of initial cur = []" for k
    using quiet [of k] by (auto simp: newFiles_of_empty)
  from waitForDownload_quiet [OF base this early late]
  obtain tr where run: "waitForDownload env dir tmo = Some (Inr None, 2 * M + 4, tr)"
    by blast
  have last: "2 * M + 4 - 1 = 2 * M + 3" by simp
  have bound: "?el M \<le> tmo + d"
  proof (cases M)
    case 0
    with first nonneg show ?thesis by simp
  next
    case (Suc k)
    then have e: "2 * M + 3 = 2 * k + 5" by simp
    from early [of k] Suc have "?el k < tmo" by simp
    moreover from period [of k]
    have "Date_now (env (2 * k + 5)) - Date_now (env (2 * k + 3)) \<le> d" by blast
    ultimately show ?thesis unfolding e by linarith
  qed
  show "\<exists>n tr. waitForDownload env dir tmo = Some (Inr None, n, tr)
            \<and> tmo \<le> Date_now (env (n - 1)) - Date_now (env 0)
            \<and> Date_now (env (n - 1)) - Date_now (env 0) \<le> tmo + d"
  proof (intro exI conjI)
    show "waitForDownload env dir tmo = Some (Inr None, 2 * M + 4, tr)" by (fact run)
    from late show "tmo \<le> Date_now (env (2 * M + 4 - 1)) - Date_now (env 0)"
      unfolding last .
    from bound show "Date_now (env (2 * M + 4 - 1)) - Date_now (env 0) \<le> tmo + d"
      unfolding last .
  qed
next
  assume "readdirSync (env' i) (downloadPath c) = Some cur"
    "newFiles_of (initialFiles c) cur \<noteq> []"
    "statSync_size (env' (i + 1)) (filePath_of c cur) = Some s"
    "statSync_size (env' (i + 2)) (filePath_of c cur) = Some s'"
    "s \<noteq> s'"
  from body_changed [OF this, of t]
  show "fst (checkDownload_body env' c t i) = Again" by simp
qed

theorem quiet_watch_returns_within_one_period_witness:
  "readdirSync (idle_env 1) downloads = Some [''old.json'']
   \<and> (\<forall>k. \<exists>cur. readdirSync (idle_env (2 * k + 2)) downloads = Some cur
               \<and> set cur \<subseteq> set [''old.json''])
   \<and> (0::int) \<le> 300
   \<and> Date_now (idle_env 3) - Date_now (idle_env 0) \<le> 100
   \<and> (\<forall>k. 0 < Date_now (idle_env (2 * k + 5)) - Date_now (idle_env (2 * k + 3))
          \<and> Date_now (idle_env (2 * k + 5)) - Date_now (idle_env (2 * k + 3)) \<le> 100)
   \<and> readdirSync (growing_env 2) downloads = Some [''out.json'']
   \<and> newFiles_of [] [''out.json''] \<noteq> []
   \<and> statSync_size (growing_env 3) (path_join downloads ''out.json'') = Some 3000
   \<and> statSync_size (growing_env 4) (path_join downloads ''out.json'') = Some 4000
   \<and> (3000::nat) \<noteq> 4000
   \<and> (\<exists>n tr. waitForDownload idle_env downloads 300 = Some (Inr None, n, tr)
         \<and> 300 \<le> Date_now (idle_env (n - 1)) - Date_now (idle_env 0)
         \<and> Date_now (idle_env (n - 1)) - Date_now (idle_env 0) \<le> 300 + 100)
   \<and> fst (checkDownload_body growing_env
        \<lparr>downloadPath = downloads, timeout = 300, startTime = 0, initialFiles = []\<rparr> True 2)
       = Again"
proof -
  let ?c = "\<lparr>downloadPath = downloads, timeout = 300, startTime = 0, initialFiles = []\<rparr>"
  have base: "readdirSync (idle_env 1) downloads = Some [''old.json'']"
    by (simp add: idle_env_def)
  have quiet: "\<exists>cur. readdirSync (idle_env (2 * k + 2)) downloads = Some cur
      \<and> set cur \<subseteq> set [''old.json'']" for k
    by (simp add: idle_env_def)
  have nonneg: "(0::int) \<le> 300" by simp
  have first: "Date_now (idle_env 3) - Date_now (idle_env 0) \<le> 100"
    by (simp add: idle_env_def)
  have period: "0 < Date_now (idle_env (2 * k + 5)) - Date_now (idle_env (2 * k + 3))
      \<and> Date_now (idle_env (2 * k + 5)) - Date_now (idle_env (2 * k + 3)) \<le> 100" for k
  proof -
    have "(2 * k + 5 - 2) div 2 = k + 1" "(2 * k + 3 - 2) div 2 = k" by simp_all
    then show ?thesis by (simp add: idle_env_def)
  qed
  have l: "readdirSync (growing_env 2) (downloadPath ?c) = Some [''out.json'']"
    by (simp add: growing_env_def)
  have ne: "newFiles_of (initialFiles ?c) [''out.json''] \<noteq> []"
    by (simp add: newFiles_of_def)
  have s1: "statSync_size (growing_env (2 + 1)) (filePath_of ?c [''out.json'']) = Some 3000"
    by (simp add: growing_env_def newFiles_of_def)
  have s2: "statSync_size (growing_env (2 + 2)) (filePath_of ?c [''out.json'']) = Some 4000"
    by (simp add: growing_env_def newFiles_of_def)
  have d: "(3000::nat) \<noteq> 4000" by simp
  note inst = quiet_watch_returns_within_one_period [OF base quiet nonneg first period,
      of growing_env 2 ?c "[''out.json'']" 3000 4000 True]
  from inst l ne s1 s2 have
    "(\<exists>n tr. waitForDownload idle_env downloads 300 = Some (Inr None, n, tr)
         \<and> 300 \<le> Date_now (idle_env (n - 1)) - Date_now (idle_env 0)
         \<and> Date_now (idle_env (n - 1)) - Date_now (idle_env 0) \<le> 300 + 100)"
    and "fst (checkDownload_body growing_env ?c True 2) = Again"
    by simp_all
  moreover from l ne s1 s2 have "readdirSync (growing_env 2) downloads = Some [''out.json'']"
    "newFiles_of [] [''out.json''] \<noteq> []"
    "statSync_size (growing_env 3) (path_join downloads ''out.json'') = Some 3000"
    "statSync_size (growing_env 4) (path_join downloads ''out.json'') = Some 4000"
    by (simp_all add: newFiles_of_def)
  ultimately show ?thesis using base quiet nonneg first period
    by (intro conjI allI) simp_all
qed

section \<open>Failing reads\<close>

text \<open>
  Claim C10. Let an entry of \<^verbatim>\<open>checkDownload\<close> list a candidate. If the first read of the
  candidate's size throws, or the first read succeeds and the second one, after the timer,
  throws, the run of \<^verbatim>\<open>checkDownload\<close> ends there with that exception: the failed read is
  the last call of the run, no poll follows and no timeout is reported.
\<close>

theorem vanished_candidate_fails_the_watch:
  assumes "readdirSync (env i) (downloadPath c) = Some cur"
    and "newFiles_of (initialFiles c) cur \<noteq> []"
  shows "(statSync_size (env (i + 1)) (filePath_of c cur) = None \<longrightarrow>
            checkDownload env c t i tr =
              Some (Inl (throw t (IOError (filePath_of c cur))), i + 2,
                tr @ [ReaddirSync (downloadPath c) (Some cur), StatSync (filePath_of c cur) None]))
       \<and> (statSync_size (env (i + 1)) (filePath_of c cur) = Some s \<longrightarrow>
          statSync_size (env (i + 2)) (filePath_of c cur) = None \<longrightarrow>
            checkDownload env c t i tr =
              Some (Inl (Uncaught (IOError (filePath_of c cur))), i + 3,
                tr @ [ReaddirSync (downloadPath c) (Some cur),
                      StatSync (filePath_of c cur) (Some s), SetTimeout 100,
                      StatSync (filePath_of c cur) None]))"
proof (intro conjI impI)
  assume "statSync_size (env (i + 1)) (filePath_of c cur) = None"
  from checkDownload_settle [OF body_stat1_fail [OF assms this]]
  show "checkDownload env c t i tr =
      Some (Inl (throw t (IOError (filePath_of c cur))), i + 2,
        tr @ [ReaddirSync (downloadPath c) (Some cur), StatSync (filePath_of c cur) None])" .
next
  assume "statSync_size (env (i + 1)) (filePath_of c cur) = Some s"
    and "statSync_size (env (i + 2)) (filePath_of c cur) = None"
  from checkDownload_settle [OF body_stat2_fail [OF assms this]]
  show "checkDownload env c t i tr =
      Some (Inl (Uncaught (IOError (filePath_of c cur))), i + 3,
        tr @ [ReaddirSync (downloadPath c) (Some cur),
              StatSync (filePath_of c cur) (Some s), SetTimeout 100,
              StatSync (filePath_of c cur) None])" .
qed

theorem vanished_candidate_fails_the_watch_witness:
  "readdirSync (vanishing_env 3 2) downloads = Some [''out.crdownload'']
   \<and> readdirSync (vanishing_env 4 2) downloads = Some [''out.crdownload'']
   \<and> newFiles_of [] [''out.crdownload''] \<noteq> []
   \<and> statSync_size (vanishing_env 3 3) ''/app/downloads/out.crdownload'' = None
   \<and> statSync_size (vanishing_env 4 3) ''/app/downloads/out.crdownload'' = Some 10
   \<and> statSync_size (vanishing_env 4 4) ''/app/downloads/out.crdownload'' = None
   \<and> checkDownload (vanishing_env 3)
        \<lparr>downloadPath = downloads, timeout = 300, startTime = 0, initialFiles = []\<rparr> False 2
        [DateNow 0, ReaddirSync downloads (Some [])] =
      Some (Inl (Rejected (IOError ''/app/downloads/out.crdownload'')), 4,
        [DateNow 0, ReaddirSync downloads (Some []),
         ReaddirSync downloads (Some [''out.crdownload'']),
         StatSync ''/app/downloads/out.crdownload'' None])
   \<and> checkDownload (vanishing_env 4)
        \<lparr>downloadPath = downloads, timeout = 300, startTime = 0, initialFiles = []\<rparr> False 2
        [DateNow 0, ReaddirSync downloads (Some [])] =
      Some (Inl (Uncaught (IOError ''/app/downloads/out.crdownload'')), 5,
        [DateNow 0, ReaddirSync downloads (Some []),
         ReaddirSync downloads (Some [''out.crdownload'']),
         StatSync ''/app/downloads/out.crdownload'' (Some 10), SetTimeout 100,
         StatSync ''/app/downloads/out.crdownload'' None])"
proof -
  let ?c = "\<lparr>downloadPath = downloads, timeout = 300, startTime = 0, initialFiles = []\<rparr>"
  let ?tr = "[DateNow 0, ReaddirSync downloads (Some [])]"
  have p: "filePath_of ?c [''out.crdownload''] = ''/app/downloads/out.crdownload''"
    by (simp add: newFiles_of_def path_join_def downloads_def)
  have l3: "readdirSync (vanishing_env 3 2) (downloadPath ?c) = Some [''out.crdownload'']"
    and l4: "readdirSync (vanishing_env 4 2) (downloadPath ?c) = Some [''out.crdownload'']"
    by (simp_all add: vanishing_env_def)
  have ne: "newFiles_of (initialFiles ?c) [''out.crdownload''] \<noteq> []"
    by (simp add: newFiles_of_def)
  have s3: "statSync_size (vanishing_env 3 (2 + 1)) ''/app/downloads/out.crdownload'' = None"
    and s4: "statSync_size (vanishing_env 4 (2 + 1)) ''/app/downloads/out.crdownload'' = Some 10"
    and s4': "statSync_size (vanishing_env 4 (2 + 2)) ''/app/downloads/out.crdownload'' = None"
    by (simp_all add: vanishing_env_def path_join_def downloads_def)
  from vanished_candidate_fails_the_watch [where env = "vanishing_env 3" and i = 2 and c = ?c
      and cur = "[''out.crdownload'']" and t = False and tr = ?tr and s = 10] l3 ne s3
  have "checkDownload (vanishing_env 3) ?c False 2 ?tr =
      Some (Inl (Rejected (IOError ''/app/downloads/out.crdownload'')), 4,
        ?tr @ [ReaddirSync downloads (Some [''out.crdownload'']),
         StatSync ''/app/downloads/out.crdownload'' None])"
    unfolding p by simp
  moreover from vanished_candidate_fails_the_watch [where env = "vanishing_env 4" and i = 2
      and c = ?c and cur = "[''out.crdownload'']" and t = False and tr = ?tr and s = 10]
    l4 ne s4 s4'
  have "checkDownload (vanishing_env 4) ?c False 2 ?tr =
      Some (Inl (Uncaught (IOError ''/app/downloads/out.crdownload'')), 5,
        ?tr @ [ReaddirSync downloads (Some [''out.crdownload'']),
         StatSync ''/app/downloads/out.crdownload'' (Some 10), SetTimeout 100,
         StatSync ''/app/downloads/out.crdownload'' None])"
    unfolding p by simp
  ultimately show ?thesis using l3 l4 ne s3 s4 s4' by simp
qed

lemma main_watch_failure:
  assumes "waitForDownload env dl 30000 = Some (Inl f, n, wtr)"
  shows "\<exists>e tr. main throws ex mk script env dl = Some (e, tr) \<and> e \<noteq> Completed \<and> exit_code e = 1"
  using assms
  by (cases f)
     (auto simp: main_def Let_def catch_handler_def split: sum.splits if_splits)

text \<open>
  Claim C6. A directory that cannot be listed when the watch starts makes
  \<^verbatim>\<open>waitForDownload\<close> fail with that exception; a listing that throws at any later entry
  of \<^verbatim>\<open>checkDownload\<close> ends the run with that exception; in a run that returns, a listing
  or size read that threw means the result is an exception, never \<^verbatim>\<open>null\<close> and never a
  path; and a watch that fails ends the main function without the closing steps, with exit
  code 1.
\<close>

theorem io_failure_propagates:
  "(readdirSync (env 1) dir = None \<longrightarrow>
      waitForDownload env dir tmo =
        Some (Inl (Rejected (IOError dir)), 2, [DateNow (Date_now (env 0)), ReaddirSync dir None]))
   \<and> (readdirSync (env' i) (downloadPath c) = None \<longrightarrow>
      checkDownload env' c t i tr =
        Some (Inl (throw t (IOError (downloadPath c))), i + 1,
          tr @ [ReaddirSync (downloadPath c) None]))
   \<and> (waitForDownload env'' dir' tmo' = Some (r, n, es) \<longrightarrow> (\<exists>e\<in>set es. failed e) \<longrightarrow>
      (\<exists>f. r = Inl f))
   \<and> (waitForDownload env''' dl 30000 = Some (Inl f, m, wtr) \<longrightarrow>
      (\<exists>e mtr. main throws ex mk script env''' dl = Some (e, mtr)
         \<and> e \<noteq> Completed \<and> exit_code e = 1))"
proof (intro conjI impI)
  assume "readdirSync (env 1) dir = None"
  then show "waitForDownload env dir tmo =
      Some (Inl (Rejected (IOError dir)), 2, [DateNow (Date_now (env 0)), ReaddirSync dir None])"
    by (simp add: waitForDownload_def)
next
  assume "readdirSync (env' i) (downloadPath c) = None"
  then have "checkDownload_body env' c t i =
      (Settle (Inl (throw t (IOError (downloadPath c)))), i + 1,
       [ReaddirSync (downloadPath c) None])"
    by (rule body_list_fail)
  from checkDownload_settle [OF this]
  show "checkDownload env' c t i tr =
      Some (Inl (throw t (IOError (downloadPath c))), i + 1,
        tr @ [ReaddirSync (downloadPath c) None])" .
next
  assume run: "waitForDownload env'' dir' tmo' = Some (r, n, es)"
    and bad: "\<exists>e\<in>set es. failed e"
  from run show "\<exists>f. r = Inl f"
  proof (cases rule: waitForDownload_cases)
    case no_dir
    then show ?thesis by simp
  next
    case (watch initial)
    from checkDownload_effects [OF watch(2)] obtain es' where
      "es = [DateNow (Date_now (env'' 0)), ReaddirSync dir' (Some initial)] @ es'"
      "\<forall>e\<in>set es'. failed e \<longrightarrow> isl r"
      by auto
    with bad have "isl r" by auto
    then show ?thesis by (cases r) simp_all
  qed
next
  assume "waitForDownload env''' dl 30000 = Some (Inl f, m, wtr)"
  then show "\<exists>e mtr. main throws ex mk script env''' dl = Some (e, mtr)
         \<and> e \<noteq> Completed \<and> exit_code e = 1"
    by (rule main_watch_failure)
qed

theorem io_failure_propagates_witness:
  "readdirSync (idle_env 1) ''/nowhere'' = None
   \<and> readdirSync (unreadable_env 4) downloads = None
   \<and> waitForDownload unreadable_env downloads 30000 =
       Some (Inl (Uncaught (IOError ''/app/downloads'')), 5, unreadable_trace)
   \<and> (\<exists>e\<in>set unreadable_trace. failed e)
   \<and> waitForDownload idle_env ''/nowhere'' 300 =
        Some (Inl (Rejected (IOError ''/nowhere'')), 2, [DateNow 0, ReaddirSync ''/nowhere'' None])
   \<and> checkDownload unreadable_env
        \<lparr>downloadPath = downloads, timeout = 30000, startTime = 0, initialFiles = []\<rparr> True 4 [] =
        Some (Inl (Uncaught (IOError downloads)), 5, [ReaddirSync downloads None])
   \<and> (\<exists>e mtr. main no_throw True False part_000_script unreadable_env downloads = Some (e, mtr)
         \<and> e \<noteq> Completed \<and> exit_code e = 1)"
proof -
  let ?c = "\<lparr>downloadPath = downloads, timeout = 30000, startTime = 0, initialFiles = []\<rparr>"
  have a: "readdirSync (idle_env 1) ''/nowhere'' = None"
    by (simp add: idle_env_def downloads_def)
  have b: "readdirSync (unreadable_env 4) (downloadPath ?c) = None"
    by (simp add: unreadable_env_def)
  have c: "\<exists>e\<in>set unreadable_trace. failed e"
    by (simp add: unreadable_trace_def)
  have z: "Date_now (idle_env 0) = 0" by (simp add: idle_env_def)
  note inst = io_failure_propagates [where env = idle_env and dir = "''/nowhere''" and tmo = 300
      and env' = unreadable_env and i = 4 and c = ?c and t = True and tr = "[]"
      and env'' = unreadable_env and dir' = downloads and tmo' = 30000
      and r = "Inl (Uncaught (IOError ''/app/downloads''))" and n = 5 and es = unreadable_trace
      and env''' = unreadable_env and dl = downloads
      and f = "Uncaught (IOError ''/app/downloads'')" and m = 5 and wtr = unreadable_trace
      and throws = no_throw and ex = True and mk = False and script = part_000_script]
  from inst a b c unreadable_run z show ?thesis by simp
qed

section \<open>The watcher only reads\<close>

lemma reads_only_no_mutation: "reads_only dir e \<Longrightarrow> \<not> mutates_fs e"
  by (cases e) simp_all

lemma body_reads_only:
  "\<forall>e\<in>set (snd (snd (checkDownload_body env c t i))). reads_only (downloadPath c) e"
proof -
  obtain k n es where b: "checkDownload_body env c t i = (k, n, es)"
    by (metis prod_cases3)
  from b have "\<forall>e\<in>set es. reads_only (downloadPath c) e"
    by (cases rule: body_elims) auto
  with b show ?thesis by simp
qed

text \<open>
  Claim C7. Every call the watcher makes is a read: each entry of \<^verbatim>\<open>checkDownload\<close>,
  from whatever state and whether or not the watch ever ends, only reads the clock, lists
  the watched directory, reads the size of a file inside it, arms a timer or prints a
  line; and so does the whole of a \<^verbatim>\<open>waitForDownload\<close> that returns. None of these calls
  changes the file system.
\<close>

theorem watch_reads_only:
  "(\<forall>e\<in>set (snd (snd (checkDownload_body env c t i))).
      reads_only (downloadPath c) e \<and> \<not> mutates_fs e)
   \<and> (waitForDownload env' dir tmo = Some (r, n, tr) \<longrightarrow>
      (\<forall>e\<in>set tr. reads_only dir e \<and> \<not> mutates_fs e))"
proof (intro conjI impI)
  from body_reads_only [of env c t i]
  show "\<forall>e\<in>set (snd (snd (checkDownload_body env c t i))).
      reads_only (downloadPath c) e \<and> \<not> mutates_fs e"
    by (auto dest: reads_only_no_mutation)
next
  assume "waitForDownload env' dir tmo = Some (r, n, tr)"
  then have "\<forall>e\<in>set tr. reads_only dir e"
  proof (cases rule: waitForDownload_cases)
    case no_dir
    then show ?thesis by simp
  next
    case (watch initial)
    from checkDownload_effects [OF watch(2)] obtain es where
      "tr = [DateNow (Date_now (env' 0)), ReaddirSync dir (Some initial)] @ es"
      "\<forall>e\<in>set es. reads_only dir e"
      by auto
    then show ?thesis by auto
  qed
  then show "\<forall>e\<in>set tr. reads_only dir e \<and> \<not> mutates_fs e"
    by (auto dest: reads_only_no_mutation)
qed

theorem watch_reads_only_witness:
  "StatSync ''/app/downloads/out.json'' (Some 500)
     \<in> set (snd (snd (checkDownload_body oneshot_env
          \<lparr>downloadPath = downloads, timeout = 300, startTime = 0, initialFiles = []\<rparr> True 6)))
   \<and> waitForDownload oneshot_env downloads 300 =
       Some (Inr (Some ''/app/downloads/out.json''), 9, oneshot_trace)
   \<and> StatSync ''/app/downloads/out.json'' (Some 500) \<in> set oneshot_trace
   \<and> list_all (\<lambda>e. reads_only downloads e \<and> \<not> mutates_fs e)
        (snd (snd (checkDownload_body oneshot_env
          \<lparr>downloadPath = downloads, timeout = 300, startTime = 0, initialFiles = []\<rparr> True 6)))
   \<and> list_all (\<lambda>e. reads_only downloads e \<and> \<not> mutates_fs e) oneshot_trace"
proof -
  let ?c = "\<lparr>downloadPath = downloads, timeout = 300, startTime = 0, initialFiles = []\<rparr>"
  have a: "StatSync ''/app/downloads/out.json'' (Some 500)
     \<in> set (snd (snd (checkDownload_body oneshot_env ?c True 6)))"
    by (simp add: checkDownload_body_def oneshot_env_def newFiles_of_def path_join_def
        downloads_def Let_def)
  have b: "StatSync ''/app/downloads/out.json'' (Some 500) \<in> set oneshot_trace"
    by (simp add: oneshot_trace_def)
  note inst = watch_reads_only [where env = oneshot_env and c = ?c and t = True and i = 6
      and env' = oneshot_env and dir = downloads and tmo = 300
      and r = "Inr (Some ''/app/downloads/out.json'')" and n = 9 and tr = oneshot_trace]
  from inst a b oneshot_run show ?thesis by (simp add: list_all_iff)
qed

section \<open>Two watches in a row\<close>

lemma waitForDownload_reports_new_name:
  assumes "waitForDownload env dir tmo = Some (Inr (Some p), n, tr)"
  shows "\<exists>initial cur f. readdirSync (env 1) dir = Some initial
           \<and> 3 \<le> n \<and> readdirSync (env (n - 3)) dir = Some cur
           \<and> f \<in> set cur \<and> f \<notin> set initial \<and> p = path_join dir f"
  using assms
proof (cases rule: waitForDownload_cases)
  case no_dir
  then show ?thesis by simp
next
  case (watch initial)
  from checkDownload_path [OF watch(2), of p] obtain cur m where
    m: "n = m + 3" "readdirSync (env m) dir = Some cur" "newFiles_of initial cur \<noteq> []"
      "p = path_join dir (hd (newFiles_of initial cur))"
    by auto
  from first_new_entry [OF m(3)] obtain before rest where
    "cur = before @ hd (newFiles_of initial cur) # rest"
    "hd (newFiles_of initial cur) \<notin> set initial"
    by blast
  then have "hd (newFiles_of initial cur) \<in> set cur" "hd (newFiles_of initial cur) \<notin> set initial"
    by (metis in_set_conv_decomp, simp)
  with m watch(1) show ?thesis by auto
qed

lemma waitForDownload_idle:
  fixes env :: env
  assumes same: "\<And>k. readdirSync (env k) dir = Some cur"
    and time: "tmo \<le> Date_now (env (2 * N + 3)) - Date_now (env 0)"
  shows "\<exists>M tr. waitForDownload env dir tmo = Some (Inr None, 2 * M + 4, tr)"
proof -
  from first_late_poll [OF time] obtain M where
    late: "tmo \<le> Date_now (env (2 * M + 3)) - Date_now (env 0)"
    and early: "\<And>k. k < M \<Longrightarrow> Date_now (env (2 * k + 3)) - Date_now (env 0) < tmo"
    by blast
  have "\<exists>c. readdirSync (env (2 * k + 2)) dir = Some c \<and> newFiles_of cur c = []" for k
    using same [of "2 * k + 2"] by (simp add: newFiles_of_empty)
  from waitForDownload_quiet [OF same [of 1] this early late]
  show ?thesis by blast
qed

text \<open>
  Claim C8. A watch keeps nothing from one call to the next: it is a function of what it
  observes, and its baseline is the listing it reads at its start. Two calls in a row are
  two watches of the same environment, the second one starting at the instant \<open>n\<close> at
  which the first one ended. If the first call reported a file and the directory lists at
  the second call's start as the first call last saw it, that file is in the second
  call's baseline and the second call never reports it. If the directory lists the same
  throughout and every poll reads a later time than the poll before, both calls resolve
  with \<^verbatim>\<open>null\<close>.
\<close>

theorem successive_watches:
  "(waitForDownload env dir tmo = Some (Inr (Some p), n, tr) \<longrightarrow>
    readdirSync (env (n + 1)) dir = readdirSync (env (n - 3)) dir \<longrightarrow>
      (\<exists>f baseline. p = path_join dir f \<and> readdirSync (env (n + 1)) dir = Some baseline
          \<and> f \<in> set baseline)
      \<and> (\<forall>r m tr'. waitForDownload (\<lambda>k. env (n + k)) dir tmo' = Some (r, m, tr') \<longrightarrow>
            r \<noteq> Inr (Some p)))
   \<and> ((\<forall>k. readdirSync (env' k) dir' = Some cur) \<longrightarrow>
      (\<forall>k. Date_now (env' (2 * k + 3)) < Date_now (env' (2 * k + 5))) \<longrightarrow>
      (\<exists>n1 tr1 n2 tr2.
          waitForDownload env' dir' tmo_a = Some (Inr None, n1, tr1)
          \<and> waitForDownload (\<lambda>k. env' (n1 + k)) dir' tmo_b = Some (Inr None, n2, tr2)))"
proof (intro conjI impI)
  assume first: "waitForDownload env dir tmo = Some (Inr (Some p), n, tr)"
    and still: "readdirSync (env (n + 1)) dir = readdirSync (env (n - 3)) dir"
  from waitForDownload_reports_new_name [OF first] obtain cur f where
    f: "readdirSync (env (n - 3)) dir = Some cur" "f \<in> set cur" "p = path_join dir f"
    by blast
  with still have base: "readdirSync (env (n + 1)) dir = Some cur" by simp
  with f show "\<exists>f baseline. p = path_join dir f \<and> readdirSync (env (n + 1)) dir = Some baseline
          \<and> f \<in> set baseline"
    by blast
  show "\<forall>r m tr'. waitForDownload (\<lambda>k. env (n + k)) dir tmo' = Some (r, m, tr') \<longrightarrow>
            r \<noteq> Inr (Some p)"
  proof (intro allI impI notI)
    fix r m tr'
    assume "waitForDownload (\<lambda>k. env (n + k)) dir tmo' = Some (r, m, tr')" "r = Inr (Some p)"
    then have "waitForDownload (\<lambda>k. env (n + k)) dir tmo' = Some (Inr (Some p), m, tr')"
      by simp
    from waitForDownload_reports_new_name [OF this] base obtain g where
      "g \<notin> set cur" "p = path_join dir g"
      by auto
    with f show False by simp
  qed
next
  assume same: "\<forall>k. readdirSync (env' k) dir' = Some cur"
    and tick: "\<forall>k. Date_now (env' (2 * k + 3)) < Date_now (env' (2 * k + 5))"
  from tick have pos: "0 < Date_now (env' (2 * k + 5)) - Date_now (env' (2 * k + 3))" for k
    by simp
  define N where "N = nat (tmo_a - (Date_now (env' 3) - Date_now (env' 0)))"
  then have "tmo_a - (Date_now (env' 3) - Date_now (env' 0)) \<le> int N" by simp
  with clock_progress [of env' N, OF pos]
  have "tmo_a \<le> Date_now (env' (2 * N + 3)) - Date_now (env' 0)" by linarith
  with same obtain M tr1 where
    first: "waitForDownload env' dir' tmo_a = Some (Inr None, 2 * M + 4, tr1)"
    using waitForDownload_idle [of env' dir' cur tmo_a N] by blast
  let ?env2 = "\<lambda>k. env' (2 * M + 4 + k)"
  define N2 where "N2 = nat (tmo_b + Date_now (env' (2 * M + 4)) - Date_now (env' 3))"
  then have "tmo_b + Date_now (env' (2 * M + 4)) - Date_now (env' 3) \<le> int N2" by simp
  moreover have "2 * M + 4 + (2 * N2 + 3) = 2 * (M + 2 + N2) + 3" by simp
  moreover from clock_progress [of env' "M + 2 + N2", OF pos]
  have "Date_now (env' 3) + int (M + 2 + N2) \<le> Date_now (env' (2 * (M + 2 + N2) + 3))" .
  ultimately have "tmo_b \<le> Date_now (?env2 (2 * N2 + 3)) - Date_now (?env2 0)"
    by simp
  moreover from same have "readdirSync (?env2 k) dir' = Some cur" for k by simp
  ultimately obtain M2 tr2 where
    "waitForDownload ?env2 dir' tmo_b = Some (Inr None, 2 * M2 + 4, tr2)"
    using waitForDownload_idle [of ?env2 dir' cur tmo_b N2] by blast
  with first show "\<exists>n1 tr1 n2 tr2.
          waitForDownload env' dir' tmo_a = Some (Inr None, n1, tr1)
          \<and> waitForDownload (\<lambda>k. env' (n1 + k)) dir' tmo_b = Some (Inr None, n2, tr2)"
    by blast
qed

theorem successive_watches_witness:
  "waitForDownload oneshot_env downloads 300 =
      Some (Inr (Some ''/app/downloads/out.json''), 9, oneshot_trace)
   \<and> readdirSync (oneshot_env (9 + 1)) downloads = readdirSync (oneshot_env (9 - 3)) downloads
   \<and> waitForDownload (\<lambda>k. oneshot_env (9 + k)) downloads 300 =
      Some (Inr None, 6, oneshot_second_trace)
   \<and> (\<forall>k. readdirSync (idle_env k) downloads = Some [''old.json''])
   \<and> (\<forall>k. Date_now (idle_env (2 * k + 3)) < Date_now (idle_env (2 * k + 5)))
   \<and> (\<exists>f baseline. ''/app/downloads/out.json'' = path_join downloads f
         \<and> readdirSync (oneshot_env (9 + 1)) downloads = Some baseline \<and> f \<in> set baseline)
   \<and> (Inr None :: outcome) \<noteq> Inr (Some ''/app/downloads/out.json'')
   \<and> (\<exists>n1 tr1 n2 tr2.
          waitForDownload idle_env downloads 300 = Some (Inr None, n1, tr1)
          \<and> waitForDownload (\<lambda>k. idle_env (n1 + k)) downloads 300 = Some (Inr None, n2, tr2))"
proof -
  have still: "readdirSync (oneshot_env (9 + 1)) downloads
      = readdirSync (oneshot_env (9 - 3)) downloads"
    by (simp add: oneshot_env_def)
  have same: "\<forall>k. readdirSync (idle_env k) downloads = Some [''old.json'']"
    by (simp add: idle_env_def)
  have tick: "\<forall>k. Date_now (idle_env (2 * k + 3)) < Date_now (idle_env (2 * k + 5))"
  proof
    fix k :: nat
    have "(2 * k + 5 - 2) div 2 = k + 1" "(2 * k + 3 - 2) div 2 = k" by simp_all
    then show "Date_now (idle_env (2 * k + 3)) < Date_now (idle_env (2 * k + 5))"
      by (simp add: idle_env_def)
  qed
  note inst = successive_watches [where env = oneshot_env and dir = downloads and tmo = 300
      and p = "''/app/downloads/out.json''" and n = 9 and tr = oneshot_trace and tmo' = 300
      and env' = idle_env and dir' = downloads and cur = "[''old.json'']"
      and tmo_a = 300 and tmo_b = 300]
  from inst oneshot_run still same tick oneshot_second_run show ?thesis by blast
qed

section \<open>The exit code\<close>

lemma run_awaits_ok:
  "\<forall>s\<in>set script. \<not> throws (fst s) \<Longrightarrow> \<exists>es. run_awaits throws script tr = Inr (tr @ es)"
proof (induction script arbitrary: tr)
  case Nil
  show ?case by simp
next
  case (Cons a script)
  obtain s logs where a: "a = (s, logs)" by (cases a)
  from Cons.prems have "\<forall>s\<in>set script. \<not> throws (fst s)" by simp
  from Cons.IH [OF this, of "tr @ [Call s] @ logs"] obtain es where
    "run_awaits throws script (tr @ [Call s] @ logs) = Inr ((tr @ [Call s] @ logs) @ es)" ..
  with Cons.prems a show ?case by simp
qed

lemma run_awaits_throw:
  "\<exists>s\<in>set script. throws (fst s) \<Longrightarrow> \<exists>tr'. run_awaits throws script tr = Inl tr'"
proof (induction script arbitrary: tr)
  case Nil
  then show ?case by simp
next
  case (Cons a script)
  obtain s logs where a: "a = (s, logs)" by (cases a)
  show ?case
  proof (cases "throws s")
    case True
    with a show ?thesis by simp
  next
    case False
    with Cons.prems a have "\<exists>s\<in>set script. throws (fst s)" by simp
    from Cons.IH [OF this, of "tr @ [Call s] @ logs"] False a show ?thesis by simp
  qed
qed

lemma report_truthy:
  "(if truthy r then ConsoleLog (''JSON file successfully downloaded to: '' @ the r)
    else ConsoleError (''Failed to download JSON file to: '' @ dl)) = report r dl"
  by (cases r) simp_all

lemma main_outcome:
  assumes watch: "waitForDownload env dl 30000 = Some (w, n, wtr)"
  shows "\<exists>e mtr. main throws ex mk script env dl = Some (e, mtr)
    \<and> exit_code e = (if e = Completed then 0 else 1)
    \<and> (e = Completed \<longleftrightarrow>
          \<not> (\<not> ex \<and> mk) \<and> \<not> throws Listen \<and> (\<forall>s\<in>set script. \<not> throws (fst s))
          \<and> \<not> isl w \<and> \<not> throws BrowserClose)
    \<and> (e = Crashed \<longleftrightarrow>
          \<not> (\<not> ex \<and> mk)
          \<and> (throws Listen
             \<or> (\<forall>s\<in>set script. \<not> throws (fst s)) \<and> (\<exists>x. w = Inl (Uncaught x))))
    \<and> (e = Completed \<longrightarrow>
          (\<exists>pre r. w = Inr r \<and> mtr = pre @ wtr @
             [Call BrowserClose, ServerClose, report r dl, ConsoleLog ''Server closed.'']))
    \<and> (e \<noteq> Completed \<longrightarrow> e \<noteq> Crashed \<longrightarrow>
          e = Exited 1 \<and> (\<exists>pre. mtr = pre @ [ConsoleError ''Error occurred:'', ProcessExit 1]))"
proof (cases "\<not> ex \<and> mk")
  case True
  then show ?thesis by (simp add: main_def catch_handler_def)
next
  case mkdir: False
  show ?thesis
  proof (cases "throws Listen")
    case True
    with mkdir show ?thesis by (auto simp: main_def Let_def)
  next
    case listen: False
    let ?tr = "(if ex then [ExistsSync dl ex] else [ExistsSync dl ex] @ [MkdirSync dl])
               @ [Call Listen, ConsoleLog ''Server started: http://localhost:3000'']"
    show ?thesis
    proof (cases "\<forall>s\<in>set script. \<not> throws (fst s)")
      case False
      then have "\<exists>s\<in>set script. throws (fst s)" by simp
      from run_awaits_throw [OF this, of ?tr] obtain tr' where
        "run_awaits throws script ?tr = Inl tr'" ..
      with mkdir listen False show ?thesis
        by (auto simp: main_def Let_def catch_handler_def)
    next
      case True
      from run_awaits_ok [OF this, of ?tr] obtain es where
        aw: "run_awaits throws script ?tr = Inr (?tr @ es)" ..
      show ?thesis
      proof (cases w)
        case (Inl f)
        with mkdir listen True watch aw show ?thesis
          by (cases f) (auto simp: main_def Let_def catch_handler_def)
      next
        case (Inr r)
        with mkdir listen True watch aw show ?thesis
          by (cases "throws BrowserClose")
             (auto simp: main_def Let_def catch_handler_def report_truthy)
      qed
    qed
  qed
qed

lemma idle_run_default:
  "\<exists>M tr. waitForDownload idle_env downloads 30000 = Some (Inr None, 2 * M + 4, tr)"
proof (rule waitForDownload_idle)
  show "readdirSync (idle_env k) downloads = Some [''old.json'']" for k
    by (simp add: idle_env_def)
  show "30000 \<le> Date_now (idle_env (2 * 300 + 3)) - Date_now (idle_env 0)"
    by (simp add: idle_env_def)
qed

text \<open>
  Claim C2 fails on the code. Nothing happens in the directory, the watcher gives up
  after its default 30 s and resolves with \<^verbatim>\<open>null\<close>; no call throws. The main function
  then runs to its end, \<^verbatim>\<open>process.exit\<close> is never called, and the exit code is 0 although
  the download failed.
\<close>

theorem download_timeout_exits_zero:
  "map_option fst (waitForDownload idle_env downloads 30000) = Some (Inr None)
   \<and> map_option (exit_code \<circ> fst) (main no_throw True False part_000_script idle_env downloads)
       = Some 0"
proof -
  from idle_run_default obtain M tr where
    run: "waitForDownload idle_env downloads 30000 = Some (Inr None, 2 * M + 4, tr)"
    by blast
  from main_outcome [OF run, of no_throw True False part_000_script]
  have "map_option (exit_code \<circ> fst) (main no_throw True False part_000_script idle_env downloads)
       = Some 0"
    by (auto simp: no_throw_def)
  with run show ?thesis by simp
qed

text \<open>
  Claim C2, amended. Let the watcher return, with \<^verbatim>\<open>null\<close>, a path or an exception. The
  main function ends \<open>Completed\<close>, with exit code 0, exactly when no call of the sequence
  throws and the watcher resolves, with \<^verbatim>\<open>null\<close> as with a path: it has then closed the
  browser and the server and printed its report, which for \<^verbatim>\<open>null\<close> is the failure message
  on the error stream. In every other case an error went uncaught by the sequence and the
  exit code is 1: the process crashes when the server cannot bind its port or the watcher
  throws in a timer callback, and otherwise the \<^verbatim>\<open>.catch\<close> handler prints the error and
  calls \<^verbatim>\<open>process.exit(1)\<close>.
\<close>

theorem download_timeout_is_not_fatal:
  assumes "waitForDownload env dl 30000 = Some (w, n, wtr)"
  shows "\<exists>e mtr. main throws ex mk script env dl = Some (e, mtr)
    \<and> exit_code e = (if e = Completed then 0 else 1)
    \<and> (e = Completed \<longleftrightarrow>
          \<not> (\<not> ex \<and> mk) \<and> \<not> throws Listen \<and> (\<forall>s\<in>set script. \<not> throws (fst s))
          \<and> \<not> isl w \<and> \<not> throws BrowserClose)
    \<and> (e = Crashed \<longleftrightarrow>
          \<not> (\<not> ex \<and> mk)
          \<and> (throws Listen
             \<or> (\<forall>s\<in>set script. \<not> throws (fst s)) \<and> (\<exists>x. w = Inl (Uncaught x))))
    \<and> (e = Completed \<longrightarrow>
          (\<exists>pre r. w = Inr r \<and> mtr = pre @ wtr @
             [Call BrowserClose, ServerClose, report r dl, ConsoleLog ''Server closed.'']))
    \<and> (e \<noteq> Completed \<longrightarrow> e \<noteq> Crashed \<longrightarrow>
          e = Exited 1 \<and> (\<exists>pre. mtr = pre @ [ConsoleError ''Error occurred:'', ProcessExit 1]))"
  using assms by (rule main_outcome)

theorem download_timeout_is_not_fatal_witness:
  "(\<exists>n wtr. waitForDownload idle_env downloads 30000 = Some (Inr None, n, wtr)
      \<and> (\<exists>e mtr pre. main no_throw True False part_000_script idle_env downloads = Some (e, mtr)
            \<and> e = Completed \<and> exit_code e = 0
            \<and> mtr = pre @ wtr @
                [Call BrowserClose, ServerClose,
                 ConsoleError ''Failed to download JSON file to: /app/downloads'',
                 ConsoleLog ''Server closed.'']))
   \<and> (\<exists>e mtr pre. main (\<lambda>s. s = BrowserClose) True False entry_script idle_env downloads
            = Some (e, mtr)
         \<and> e = Exited 1 \<and> exit_code e = 1
         \<and> mtr = pre @ [ConsoleError ''Error occurred:'', ProcessExit 1])
   \<and> (\<exists>e mtr. main (\<lambda>s. s = Listen) True False part_000_script idle_env downloads
            = Some (e, mtr)
         \<and> e = Crashed \<and> exit_code e = 1)"
proof -
  from idle_run_default obtain M tr where
    run: "waitForDownload idle_env downloads 30000 = Some (Inr None, 2 * M + 4, tr)"
    by blast
  have quiet: "\<forall>s\<in>set part_000_script. \<not> no_throw (fst s)" "\<not> no_throw BrowserClose"
    "\<not> no_throw Listen"
    by (simp_all add: no_throw_def)
  from download_timeout_is_not_fatal [OF run, of no_throw True False part_000_script] quiet
  have a: "\<exists>e mtr pre. main no_throw True False part_000_script idle_env downloads = Some (e, mtr)
            \<and> e = Completed \<and> exit_code e = 0
            \<and> mtr = pre @ tr @
                [Call BrowserClose, ServerClose,
                 ConsoleError ''Failed to download JSON file to: /app/downloads'',
                 ConsoleLog ''Server closed.'']"
    by (auto simp: downloads_def)
  have "\<forall>s\<in>set entry_script. fst s \<noteq> BrowserClose"
    by (simp add: entry_script_def)
  with download_timeout_is_not_fatal [OF run, of "\<lambda>s. s = BrowserClose" True False entry_script]
  have b: "\<exists>e mtr pre. main (\<lambda>s. s = BrowserClose) True False entry_script idle_env downloads
            = Some (e, mtr)
         \<and> e = Exited 1 \<and> exit_code e = 1
         \<and> mtr = pre @ [ConsoleError ''Error occurred:'', ProcessExit 1]"
    by auto
  from download_timeout_is_not_fatal [OF run, of "\<lambda>s. s = Listen" True False part_000_script]
  have c: "\<exists>e mtr. main (\<lambda>s. s = Listen) True False part_000_script idle_env downloads
            = Some (e, mtr)
         \<and> e = Crashed \<and> exit_code e = 1"
    by auto
  from run a b c show ?thesis by blast
qed

end
